theory Spec2Isabelle
  imports Main
begin

section \<open>Python text primitives used by the pipeline\<close>

text \<open>
  Text is modelled as \<^typ>\<open>string\<close> and read as ASCII: the white-space and digit
  classes below are the ASCII part of Python's classes; every other character is an
  ordinary one. An input file is the list of its (decoded) lines.
\<close>

datatype error =
    ValueError string
  | KeyError string
  | FileNotFoundError
  | DatabaseError string

definition is_space :: "char \<Rightarrow> bool" where
  "is_space c \<longleftrightarrow>
     c = CHR 0x09 \<or> c = CHR 0x0A \<or> c = CHR 0x0B \<or> c = CHR 0x0C \<or> c = CHR 0x0D \<or>
     c = CHR 0x1C \<or> c = CHR 0x1D \<or> c = CHR 0x1E \<or> c = CHR 0x1F \<or> c = CHR 0x20"

definition is_digit :: "char \<Rightarrow> bool" where
  "is_digit c \<longleftrightarrow> 48 \<le> (of_char c :: nat) \<and> (of_char c :: nat) \<le> 57"

definition digit_val :: "char \<Rightarrow> int" where
  "digit_val c = int (of_char c) - 48"

text \<open>\<^verbatim>\<open>str.strip()\<close>: drop white space at both ends.\<close>

definition strip :: "string \<Rightarrow> string" where
  "strip s = rev (dropWhile is_space (rev (dropWhile is_space s)))"

text \<open>
  \<^verbatim>\<open>str.split()\<close> without arguments: the maximal runs of non-space characters, in
  order. \<open>split_acc cur s\<close> scans \<open>s\<close> with the field under construction in \<open>cur\<close>.
\<close>

fun split_acc :: "string \<Rightarrow> string \<Rightarrow> string list" where
  "split_acc cur [] = (if cur = [] then [] else [cur])"
| "split_acc cur (c # cs) =
     (if is_space c then (if cur = [] then split_acc [] cs else cur # split_acc [] cs)
      else split_acc (cur @ [c]) cs)"

definition split :: "string \<Rightarrow> string list" where
  "split s = split_acc [] s"

text \<open>
  \<^verbatim>\<open>int(s)\<close> in base 10: surrounding white space, an optional sign, then decimal
  digits in which single underscores may separate digits. \<open>None\<close> is the
  \<^verbatim>\<open>ValueError\<close> of Python. \<open>int_digits acc s\<close> reads what follows a digit. The
  bound that an interpreter may put on the number of digits is left out.
\<close>

fun int_digits :: "int \<Rightarrow> string \<Rightarrow> int option" where
  "int_digits acc [] = Some acc"
| "int_digits acc [c] = (if is_digit c then Some (10 * acc + digit_val c) else None)"
| "int_digits acc (c # d # cs) =
     (if is_digit c then int_digits (10 * acc + digit_val c) (d # cs)
      else if c = CHR ''_'' \<and> is_digit d then int_digits (10 * acc + digit_val d) cs
      else None)"

definition unsigned_int :: "string \<Rightarrow> int option" where
  "unsigned_int s =
     (case s of
        [] \<Rightarrow> None
      | d # ds \<Rightarrow> if is_digit d then int_digits (digit_val d) ds else None)"

definition py_int :: "string \<Rightarrow> int option" where
  "py_int s =
     (case strip s of
        [] \<Rightarrow> None
      | c # cs \<Rightarrow>
          if c = CHR ''-'' then map_option uminus (unsigned_int cs)
          else if c = CHR ''+'' then unsigned_int cs
          else unsigned_int (c # cs))"

section \<open>The execution timestamp\<close>

text \<open>\<^verbatim>\<open>event_time.replace("-", "")\<close>.\<close>

definition normalize_time :: "string \<Rightarrow> string" where
  "normalize_time event_time = filter (\<lambda>c. c \<noteq> CHR ''-'') event_time"

text \<open>
  \<^verbatim>\<open>datetime.strptime(s, "%Y%m%d%H")\<close> compiles the format to the regular expression
  \<^verbatim>\<open>(?P<Y>\d\d\d\d)(?P<m>1[0-2]|0[1-9]|[1-9])(?P<d>3[0-1]|[1-2]\d|0[1-9]|[1-9]| [1-9])(?P<H>2[0-3]|[0-1]\d|\d)\<close>
  and matches it at the start of the string; the first match in the order of the
  alternatives wins, and input left after it is an error. Each group below returns
  its possible matches in that order, with the value read and the rest of the input.
\<close>

definition digit_in :: "int \<Rightarrow> int \<Rightarrow> char \<Rightarrow> bool" where
  "digit_in lo hi c \<longleftrightarrow> is_digit c \<and> lo \<le> digit_val c \<and> digit_val c \<le> hi"

definition two_digits :: "(char \<Rightarrow> bool) \<Rightarrow> (char \<Rightarrow> bool) \<Rightarrow> string \<Rightarrow> (int \<times> string) list" where
  "two_digits p q s =
     (case s of
        a # b # r \<Rightarrow> if p a \<and> q b then [(10 * digit_val a + digit_val b, r)] else []
      | _ \<Rightarrow> [])"

definition one_digit :: "(char \<Rightarrow> bool) \<Rightarrow> string \<Rightarrow> (int \<times> string) list" where
  "one_digit p s = (case s of a # r \<Rightarrow> if p a then [(digit_val a, r)] else [] | _ \<Rightarrow> [])"

definition space_digit :: "(char \<Rightarrow> bool) \<Rightarrow> string \<Rightarrow> (int \<times> string) list" where
  "space_digit p s =
     (case s of
        a # b # r \<Rightarrow> if a = CHR 0x20 \<and> p b then [(digit_val b, r)] else []
      | _ \<Rightarrow> [])"

definition re_Y :: "string \<Rightarrow> (int \<times> string) list" where
  "re_Y s =
     (case s of
        a # b # c # d # r \<Rightarrow>
          if is_digit a \<and> is_digit b \<and> is_digit c \<and> is_digit d
          then [(1000 * digit_val a + 100 * digit_val b + 10 * digit_val c + digit_val d, r)]
          else []
      | _ \<Rightarrow> [])"

definition re_m :: "string \<Rightarrow> (int \<times> string) list" where
  "re_m s =
     two_digits (digit_in 1 1) (digit_in 0 2) s @
     two_digits (digit_in 0 0) (digit_in 1 9) s @
     one_digit (digit_in 1 9) s"

definition re_d :: "string \<Rightarrow> (int \<times> string) list" where
  "re_d s =
     two_digits (digit_in 3 3) (digit_in 0 1) s @
     two_digits (digit_in 1 2) is_digit s @
     two_digits (digit_in 0 0) (digit_in 1 9) s @
     one_digit (digit_in 1 9) s @
     space_digit (digit_in 1 9) s"

definition re_H :: "string \<Rightarrow> (int \<times> string) list" where
  "re_H s =
     two_digits (digit_in 2 2) (digit_in 0 3) s @
     two_digits (digit_in 0 1) is_digit s @
     one_digit is_digit s"

type_synonym time_fields = "int \<times> int \<times> int \<times> int"

definition re_matches :: "string \<Rightarrow> (time_fields \<times> string) list" where
  "re_matches s =
     concat (map (\<lambda>(y, r1).
       concat (map (\<lambda>(m, r2).
         concat (map (\<lambda>(d, r3).
           map (\<lambda>(h, r4). ((y, m, d, h), r4)) (re_H r3))
         (re_d r2)))
       (re_m r1)))
     (re_Y s))"

definition is_leap :: "int \<Rightarrow> bool" where
  "is_leap y \<longleftrightarrow> y mod 4 = 0 \<and> (y mod 100 \<noteq> 0 \<or> y mod 400 = 0)"

definition days_in_month :: "int \<Rightarrow> int \<Rightarrow> int" where
  "days_in_month y m =
     (if m = 2 then (if is_leap y then 29 else 28)
      else if m = 4 \<or> m = 6 \<or> m = 9 \<or> m = 11 then 30
      else 31)"

definition strptime :: "string \<Rightarrow> error + time_fields" where
  "strptime s =
     (case re_matches s of
        [] \<Rightarrow> Inl (ValueError ''time data does not match format'')
      | ((y, m, d, h), rest) # _ \<Rightarrow>
          if rest \<noteq> [] then Inl (ValueError ''unconverted data remains'')
          else if y < 1 then Inl (ValueError ''year is out of range'')
          else if days_in_month y m < d then Inl (ValueError ''day is out of range for month'')
          else Inr (y, m, d, h))"

section \<open>The Transformer\<close>

definition COMPANIES :: "string set" where
  "COMPANIES = {''Amazon'', ''Apple_Inc.'', ''Facebook'', ''Google'', ''Microsoft''}"

record pageview_record =
  page_title_id :: int
  page_title :: string
  pageviews :: int
  year :: int
  month :: int
  day :: int
  hour :: int

text \<open>
  The body of the loop over the input lines, for the line \<open>line\<close> when the counter
  is \<open>n\<close>: \<open>Inr None\<close> when the line is passed over, \<open>Inr (Some r)\<close> when the row
  \<open>r\<close> is written (the loop then increments the counter), \<open>Inl e\<close> when the
  conversion of the view count raises.
\<close>

definition process_line :: "time_fields \<Rightarrow> string \<Rightarrow> int \<Rightarrow> error + pageview_record option" where
  "process_line ts line n =
     (let parts = split (strip line) in
      if length parts < 4 then Inr None
      else
        let useful_part = take 2 (drop 1 parts);
            title = useful_part ! 0;
            views = useful_part ! 1
        in if title \<in> COMPANIES
           then (case py_int views of
                   None \<Rightarrow> Inl (ValueError ''invalid literal for int() with base 10'')
                 | Some v \<Rightarrow>
                     (case ts of (y, m, d, h) \<Rightarrow>
                        Inr (Some \<lparr>page_title_id = n, page_title = title, pageviews = v,
                                   year = y, month = m, day = d, hour = h\<rparr>)))
           else Inr None)"

text \<open>
  The loop: the counter and the rows written so far are the state. When a line
  raises, the rows already written stay in the file.
\<close>

fun transform_lines ::
  "time_fields \<Rightarrow> string list \<Rightarrow> int \<Rightarrow> pageview_record list \<Rightarrow>
     error option \<times> int \<times> pageview_record list" where
  "transform_lines ts [] n rows = (None, n, rows)"
| "transform_lines ts (line # rest) n rows =
     (case process_line ts line n of
        Inl e \<Rightarrow> (Some e, n, rows)
      | Inr None \<Rightarrow> transform_lines ts rest n rows
      | Inr (Some r) \<Rightarrow> transform_lines ts rest (n + 1) (rows @ [r]))"

text \<open>
  \<open>transform_pageviews lines event_time\<close> returns what the call does (\<open>Inr ()\<close>
  for a return, \<open>Inl e\<close> for the exception re-raised by the handler) and the output
  file: \<open>None\<close> when it was never opened, otherwise the rows written under the
  header. The timestamp is parsed before either file is opened, and the counter
  starts at 1 in every call.
\<close>

definition transform_pageviews ::
  "string list \<Rightarrow> string \<Rightarrow> (error + unit) \<times> pageview_record list option" where
  "transform_pageviews lines event_time =
     (case strptime (normalize_time event_time) of
        Inl e \<Rightarrow> (Inl e, None)
      | Inr ts \<Rightarrow>
          (case transform_lines ts lines 1 [] of
             (Some e, n, rows) \<Rightarrow> (Inl e, Some rows)
           | (None, n, rows) \<Rightarrow> (Inr (), Some rows)))"

text \<open>
  Names for what the loop reads from a line: its fields, whether it has the four
  fields the loop requires, the title and view-count fields, and whether the line
  is one the loop writes a row for.
\<close>

definition line_fields :: "string \<Rightarrow> string list" where
  "line_fields line = split (strip line)"

definition well_formed :: "string \<Rightarrow> bool" where
  "well_formed line \<longleftrightarrow> 4 \<le> length (line_fields line)"

definition title_field :: "string \<Rightarrow> string" where
  "title_field line = line_fields line ! 1"

definition views_field :: "string \<Rightarrow> string" where
  "views_field line = line_fields line ! 2"

definition watchlist_line :: "string \<Rightarrow> bool" where
  "watchlist_line line \<longleftrightarrow> well_formed line \<and> title_field line \<in> COMPANIES"

subsection \<open>The timestamp pattern of the specification\<close>

text \<open>
  Following the specification's words, not the code: a normalized timestamp matches
  \<^verbatim>\<open>YYYYMMDDHH\<close> when it is ten digits, read as fields of fixed width 4, 2, 2 and 2;
  the fields are valid when they name an hour of a day of the calendar.
\<close>

definition digits_value :: "string \<Rightarrow> int" where
  "digits_value s = foldl (\<lambda>acc c. 10 * acc + digit_val c) 0 s"




section \<open>The relational store, the logs and the files\<close>

text \<open>
  The table \<^verbatim>\<open>wikipedia_pageviews\<close> is the list of its rows; \<open>None\<close> is a store in
  which the table has not been created. A row read from a CSV file by
  \<^verbatim>\<open>csv.DictReader\<close> is a dictionary from column names to strings.
\<close>

type_synonym table = "pageview_record list"

type_synonym csv_row = "string \<rightharpoonup> string"

type_synonym params = "string \<times> string \<times> string \<times> string \<times> string \<times> string \<times> string"

datatype sql = CreateTable | InsertRow params | SelectMostViewed

datatype db_call =
    GetConn | Cursor | Execute sql | Fetchone | Commit | Rollback | CursorClose | ConnectionClose

datatype level = DEBUG | INFO | WARNING | ERROR

text \<open>
  The world the Loader and the Analyzer act on: the committed table (\<open>store\<close>), the
  table as the open transaction sees it (\<open>working\<close>), the calls made on connections
  and cursors, the records of the pipeline log, the transformed CSV files by path,
  and the analysis log (its directory, and its content when the file exists).
\<close>

record world =
  store :: "table option"
  working :: "table option"
  calls :: "db_call list"
  pipeline_log :: "(level \<times> string) list"
  csv_files :: "string \<rightharpoonup> csv_row list"
  analysis_log_dir :: bool
  analysis_log :: "string option"

text \<open>The logger of \<^verbatim>\<open>logger.py\<close> has level \<^verbatim>\<open>INFO\<close>: debug records are dropped.\<close>

definition logger :: "level \<Rightarrow> string \<Rightarrow> world \<Rightarrow> world" where
  "logger lvl msg w =
     (if lvl = DEBUG then w else w\<lparr>pipeline_log := pipeline_log w @ [(lvl, msg)]\<rparr>)"

definition call :: "db_call \<Rightarrow> world \<Rightarrow> world" where
  "call c w = w\<lparr>calls := calls w @ [c]\<rparr>"

subsection \<open>The statements, as the store executes them\<close>

text \<open>\<^verbatim>\<open>CREATE TABLE IF NOT EXISTS\<close>.\<close>

definition execute_create :: "world \<Rightarrow> (error + unit) \<times> world" where
  "execute_create w =
     (let w1 = call (Execute CreateTable) w
      in (Inr (), w1\<lparr>working := Some (case working w1 of None \<Rightarrow> [] | Some t \<Rightarrow> t)\<rparr>))"

text \<open>
  The values of an \<^verbatim>\<open>INSERT\<close> arrive as strings. How the store reads a string as
  an \<^verbatim>\<open>INTEGER\<close> is the store's business and is the parameter \<open>cast\<close> (\<open>None\<close>
  when it rejects the string). The statement fails when a value is rejected; a row
  whose \<^verbatim>\<open>page_title_id\<close> is already in the table is left out
  (\<^verbatim>\<open>ON CONFLICT (page_title_id) DO NOTHING\<close>).
\<close>

definition cast_row :: "(string \<Rightarrow> int option) \<Rightarrow> params \<Rightarrow> pageview_record option" where
  "cast_row cast p =
     (case p of (i, t, v, y, m, d, h) \<Rightarrow>
        Option.bind (cast i) (\<lambda>i'.
        Option.bind (cast v) (\<lambda>v'.
        Option.bind (cast y) (\<lambda>y'.
        Option.bind (cast m) (\<lambda>m'.
        Option.bind (cast d) (\<lambda>d'.
        Option.bind (cast h) (\<lambda>h'.
          Some \<lparr>page_title_id = i', page_title = t, pageviews = v',
                year = y', month = m', day = d', hour = h'\<rparr>)))))))"

definition sql_insert :: "(string \<Rightarrow> int option) \<Rightarrow> params \<Rightarrow> table option \<Rightarrow> error + table" where
  "sql_insert cast p tbl =
     (case tbl of
        None \<Rightarrow> Inl (DatabaseError ''relation wikipedia_pageviews does not exist'')
      | Some t \<Rightarrow>
          (case cast_row cast p of
             None \<Rightarrow> Inl (DatabaseError ''invalid input for type integer'')
           | Some r \<Rightarrow>
               if page_title_id r \<in> set (map page_title_id t) then Inr t else Inr (t @ [r])))"

text \<open>
  One pass of the loop over the reader: the seven look-ups in the row (a missing
  column raises \<^verbatim>\<open>KeyError\<close> before anything is sent), then the statement.
\<close>

definition row_params :: "csv_row \<Rightarrow> error + params" where
  "row_params row =
     (case (row ''page_title_id'', row ''page_title'', row ''pageviews'', row ''year'',
            row ''month'', row ''day'', row ''hour'') of
        (Some i, Some t, Some v, Some y, Some m, Some d, Some h) \<Rightarrow> Inr (i, t, v, y, m, d, h)
      | _ \<Rightarrow> Inl (KeyError ''missing column''))"

definition execute_insert :: "(string \<Rightarrow> int option) \<Rightarrow> csv_row \<Rightarrow> world \<Rightarrow> (error + unit) \<times> world" where
  "execute_insert cast row w =
     (case row_params row of
        Inl e \<Rightarrow> (Inl e, w)
      | Inr p \<Rightarrow>
          (let w1 = call (Execute (InsertRow p)) w
           in case sql_insert cast p (working w1) of
                Inl e \<Rightarrow> (Inl e, w1)
              | Inr t \<Rightarrow> (Inr (), w1\<lparr>working := Some t\<rparr>)))"

text \<open>
  The query of the Analyzer: one group for each distinct
  \<open>(page_title, year, month, day, hour)\<close> with the sum of its page views, and of
  these a group with the largest sum. Which of several largest groups the store
  returns is the store's choice; here it is the first of them in the order in
  which the groups are formed.
\<close>

type_synonym group_key = "string \<times> int \<times> int \<times> int \<times> int"

definition group_key :: "pageview_record \<Rightarrow> group_key" where
  "group_key r = (page_title r, year r, month r, day r, hour r)"

definition group_total :: "table \<Rightarrow> group_key \<Rightarrow> int" where
  "group_total t k = sum_list (map pageviews (filter (\<lambda>r. group_key r = k) t))"

definition group_by :: "table \<Rightarrow> (group_key \<times> int) list" where
  "group_by t = map (\<lambda>k. (k, group_total t k)) (remdups (map group_key t))"

fun order_desc_limit_1 :: "(group_key \<times> int) list \<Rightarrow> (group_key \<times> int) option" where
  "order_desc_limit_1 [] = None"
| "order_desc_limit_1 (g # gs) =
     (case order_desc_limit_1 gs of
        None \<Rightarrow> Some g
      | Some b \<Rightarrow> if snd g < snd b then Some b else Some g)"

definition execute_query :: "world \<Rightarrow> (error + (group_key \<times> int) option) \<times> world" where
  "execute_query w =
     (let w1 = call (Execute SelectMostViewed) w
      in case working w1 of
           None \<Rightarrow> (Inl (DatabaseError ''relation wikipedia_pageviews does not exist''), w1)
         | Some t \<Rightarrow> (Inr (order_desc_limit_1 (group_by t)), call Fetchone w1))"

subsection \<open>The scoped cursor\<close>

text \<open>
  \<open>postgres_cursor conn_id body\<close> is the \<^verbatim>\<open>with postgres_cursor(conn_id)\<close> block whose
  body is \<open>body\<close>: commit when the body returns, rollback and re-raise when it
  raises, and in both cases close the cursor and the connection. What can raise is
  the body; obtaining the connection and the cursor, \<^verbatim>\<open>commit\<close>, \<^verbatim>\<open>rollback\<close> and
  the two \<^verbatim>\<open>close\<close> calls are taken to succeed, the connection being a resource
  the pipeline is given.
\<close>

definition commit :: "world \<Rightarrow> world" where
  "commit w = call Commit (w\<lparr>store := working w\<rparr>)"

definition rollback :: "world \<Rightarrow> world" where
  "rollback w = call Rollback (w\<lparr>working := store w\<rparr>)"

definition close :: "world \<Rightarrow> world" where
  "close w = logger DEBUG ''Postgres connection closed'' (call ConnectionClose (call CursorClose w))"

definition open_cursor :: "string \<Rightarrow> world \<Rightarrow> world" where
  "open_cursor conn_id w =
     (let w1 = logger DEBUG (''Opening Postgres connection | conn_id='' @ conn_id) w
      in call Cursor (call GetConn (w1\<lparr>working := store w1\<rparr>)))"

definition postgres_cursor ::
  "string \<Rightarrow> (world \<Rightarrow> (error + 'a) \<times> world) \<Rightarrow> world \<Rightarrow> (error + 'a) \<times> world" where
  "postgres_cursor conn_id body w =
     (case body (open_cursor conn_id w) of
        (Inr v, w1) \<Rightarrow> (Inr v, close (commit w1))
      | (Inl e, w1) \<Rightarrow>
          (Inl e, close (logger ERROR ''Postgres transaction failed and was rolled back''
                           (rollback w1))))"

subsection \<open>The Loader\<close>

fun insert_rows :: "(string \<Rightarrow> int option) \<Rightarrow> csv_row list \<Rightarrow> world \<Rightarrow> (error + unit) \<times> world" where
  "insert_rows cast [] w = (Inr (), w)"
| "insert_rows cast (row # rest) w =
     (case execute_insert cast row w of
        (Inl e, w1) \<Rightarrow> (Inl e, w1)
      | (Inr u, w1) \<Rightarrow> insert_rows cast rest w1)"

definition load_body :: "(string \<Rightarrow> int option) \<Rightarrow> string \<Rightarrow> world \<Rightarrow> (error + unit) \<times> world" where
  "load_body cast csv_file w =
     (case execute_create w of
        (Inl e, w1) \<Rightarrow> (Inl e, w1)
      | (Inr u, w1) \<Rightarrow>
          (case csv_files w1 csv_file of
             None \<Rightarrow> (Inl FileNotFoundError, w1)
           | Some rows \<Rightarrow> insert_rows cast rows w1))"

definition load_to_postgres ::
  "(string \<Rightarrow> int option) \<Rightarrow> string \<Rightarrow> string \<Rightarrow> world \<Rightarrow> (error + unit) \<times> world" where
  "load_to_postgres cast csv_file conn_id w =
     (let w1 = logger INFO (''Loading transformed data into Postgres | file='' @ csv_file) w
      in case postgres_cursor conn_id (load_body cast csv_file) w1 of
           (Inl e, w2) \<Rightarrow> (Inl e, w2)
         | (Inr u, w2) \<Rightarrow> (Inr (), logger INFO ''Data successfully loaded into Postgres'' w2))"

text \<open>
  The net effect of the \<^verbatim>\<open>INSERT\<close> statements of one load on a table, without the
  world around it: the counterpart of \<open>insert_rows\<close> used in the proofs.
\<close>

fun apply_rows :: "(string \<Rightarrow> int option) \<Rightarrow> csv_row list \<Rightarrow> table \<Rightarrow> error + table" where
  "apply_rows cast [] t = Inr t"
| "apply_rows cast (row # rest) t =
     (case row_params row of
        Inl e \<Rightarrow> Inl e
      | Inr p \<Rightarrow>
          (case sql_insert cast p (Some t) of
             Inl e \<Rightarrow> Inl e
           | Inr t1 \<Rightarrow> apply_rows cast rest t1))"

text \<open>
  An instance of the parameter \<open>cast\<close> for the examples: decimal text in the range of
  a 32-bit integer.
\<close>

definition int4_in :: "string \<Rightarrow> int option" where
  "int4_in s =
     (case py_int s of
        None \<Rightarrow> None
      | Some v \<Rightarrow> if - 2147483648 \<le> v \<and> v \<le> 2147483647 then Some v else None)"

subsection \<open>The Analyzer\<close>

text \<open>\<^verbatim>\<open>str(n)\<close> and \<^verbatim>\<open>format(n, "02d")\<close> for an integer \<open>n\<close>.\<close>

fun str_nat :: "nat \<Rightarrow> string" where
  "str_nat n =
     (if n < 10 then [char_of (48 + n)] else str_nat (n div 10) @ [char_of (48 + n mod 10)])"

definition str_int :: "int \<Rightarrow> string" where
  "str_int i = (if i < 0 then CHR ''-'' # str_nat (nat (- i)) else str_nat (nat i))"

definition format_02d :: "int \<Rightarrow> string" where
  "format_02d i = (if 0 \<le> i \<and> i < 10 then CHR ''0'' # str_int i else str_int i)"

datatype py_value = PyStr string | PyInt int

definition report_message :: "group_key \<times> int \<Rightarrow> string" where
  "report_message row =
     (case row of ((title, y, m, d, h), n) \<Rightarrow>
        ''Most viewed Wikipedia page: '' @ [CHR 0x27] @ title @ [CHR 0x27] @ '' | '' @
        ''Total views: '' @ str_int n @ '' | '' @
        ''Time window: '' @
        str_int y @ ''-'' @ format_02d m @ ''-'' @ format_02d d @ '' '' @
        ''at '' @ format_02d h @ '':00'')"

definition result_dict :: "group_key \<times> int \<Rightarrow> (string \<times> py_value) list" where
  "result_dict row =
     (case row of ((title, y, m, d, h), n) \<Rightarrow>
        [(''page_title'', PyStr title), (''year'', PyInt y), (''month'', PyInt m), (''day'', PyInt d),
         (''hour'', PyInt h), (''total_pageviews'', PyInt n)])"

definition append_line :: "string \<Rightarrow> world \<Rightarrow> world" where
  "append_line text w =
     w\<lparr>analysis_log := Some ((case analysis_log w of None \<Rightarrow> [] | Some old \<Rightarrow> old) @ text)\<rparr>"

text \<open>The dictionary returned is a list of keys with their values; \<open>[]\<close> is \<^verbatim>\<open>{}\<close>.\<close>

definition get_most_viewed_page ::
  "string \<Rightarrow> world \<Rightarrow> (error + (string \<times> py_value) list) \<times> world" where
  "get_most_viewed_page conn_id w =
     (let w1 = logger INFO ''Running analysis: most viewed Wikipedia page with time context'' w
      in case postgres_cursor conn_id execute_query w1 of
           (Inl e, w2) \<Rightarrow> (Inl e, w2)
         | (Inr None, w2) \<Rightarrow>
             (Inr [], logger WARNING ''No data found in wikipedia_pageviews table'' w2)
         | (Inr (Some row), w2) \<Rightarrow>
             (let w3 = w2\<lparr>analysis_log_dir := True\<rparr>;
                  w4 = append_line (report_message row @ [CHR 0x0A]) w3
              in (Inr (result_dict row), logger INFO (report_message row) w4)))"

subsection \<open>The numerals of the report line, in the specification's words\<close>

text \<open>
  Following the specification's words, not the code: \<open>s\<close> is the decimal numeral of
  \<open>i\<close> (a minus sign for a negative number, then its digits without a leading
  zero); \<open>s\<close> is that numeral padded with a zero to two characters (\<^verbatim>\<open>mm\<close>, \<^verbatim>\<open>dd\<close>,
  \<^verbatim>\<open>hh\<close>); \<open>s\<close> is four digits with the value \<open>i\<close> (\<^verbatim>\<open>yyyy\<close>).
\<close>

definition decimal_numeral :: "int \<Rightarrow> string \<Rightarrow> bool" where
  "decimal_numeral i s \<longleftrightarrow>
     (let ds = (if i < 0 then drop 1 s else s)
      in (i < 0 \<longrightarrow> take 1 s = ''-'') \<and> ds \<noteq> [] \<and> list_all is_digit ds \<and>
         (1 < length ds \<longrightarrow> hd ds \<noteq> CHR ''0'') \<and> digits_value ds = \<bar>i\<bar>)"

definition two_digit_numeral :: "int \<Rightarrow> string \<Rightarrow> bool" where
  "two_digit_numeral i s \<longleftrightarrow>
     (if 0 \<le> i \<and> i < 10 then take 1 s = ''0'' \<and> decimal_numeral i (drop 1 s)
      else decimal_numeral i s)"

definition four_digit_numeral :: "int \<Rightarrow> string \<Rightarrow> bool" where
  "four_digit_numeral i s \<longleftrightarrow> length s = 4 \<and> list_all is_digit s \<and> digits_value s = i"

subsection \<open>A world for the examples\<close>

text \<open>
  No table yet, no analysis log, and two CSV files: the one a transformation wrote,
  and one whose second row has a view count that is no integer.
\<close>

definition example_world :: world where
  "example_world =
     \<lparr>store = None, working = None, calls = [], pipeline_log = [],
      csv_files =
        [''/staging/pageviews.csv'' \<mapsto>
           [ [''page_title_id'' \<mapsto> ''1'', ''page_title'' \<mapsto> ''Apple_Inc.'',
             ''pageviews'' \<mapsto> ''451'', ''year'' \<mapsto> ''2025'', ''month'' \<mapsto> ''12'',
             ''day'' \<mapsto> ''10'', ''hour'' \<mapsto> ''16''],
            [''page_title_id'' \<mapsto> ''2'', ''page_title'' \<mapsto> ''Google'',
             ''pageviews'' \<mapsto> ''1000'', ''year'' \<mapsto> ''2025'', ''month'' \<mapsto> ''12'',
             ''day'' \<mapsto> ''10'', ''hour'' \<mapsto> ''16'']],
         ''/staging/broken.csv'' \<mapsto>
           [ [''page_title_id'' \<mapsto> ''1'', ''page_title'' \<mapsto> ''Apple_Inc.'',
             ''pageviews'' \<mapsto> ''451'', ''year'' \<mapsto> ''2025'', ''month'' \<mapsto> ''12'',
             ''day'' \<mapsto> ''10'', ''hour'' \<mapsto> ''16''],
            [''page_title_id'' \<mapsto> ''2'', ''page_title'' \<mapsto> ''Google'',
             ''pageviews'' \<mapsto> ''many'', ''year'' \<mapsto> ''2025'', ''month'' \<mapsto> ''12'',
             ''day'' \<mapsto> ''10'', ''hour'' \<mapsto> ''16'']]],
      analysis_log_dir = False, analysis_log = None\<rparr>"

text \<open>
  Two more worlds, each with a table and no files: one in which two rows form the
  largest group and the analysis log already has a line, and one whose only row was
  transformed under a timestamp of the year 987.
\<close>

definition summed_world :: world where
  "summed_world =
     \<lparr>store = Some [\<lparr>page_title_id = 1, page_title = ''Google'', pageviews = 600,
                      year = 2025, month = 1, day = 2, hour = 3\<rparr>,
                    \<lparr>page_title_id = 2, page_title = ''Apple_Inc.'', pageviews = 1000,
                      year = 2025, month = 1, day = 2, hour = 3\<rparr>,
                    \<lparr>page_title_id = 3, page_title = ''Google'', pageviews = 500,
                      year = 2025, month = 1, day = 2, hour = 3\<rparr>],
      working = None, calls = [], pipeline_log = [], csv_files = Map.empty,
      analysis_log_dir = False, analysis_log = Some (''an earlier line'' @ [CHR 0x0A])\<rparr>"

definition early_year_world :: world where
  "early_year_world =
     \<lparr>store = Some [\<lparr>page_title_id = 1, page_title = ''Google'', pageviews = 7,
                      year = 987, month = 1, day = 2, hour = 3\<rparr>],
      working = None, calls = [], pipeline_log = [], csv_files = Map.empty,
      analysis_log_dir = False, analysis_log = None\<rparr>"

section \<open>Properties of the Transformer\<close>

subsection \<open>One line\<close>

lemma process_line_eq:
  "process_line (y, m, d, h) line n =
     (if watchlist_line line
      then (case py_int (views_field line) of
              None \<Rightarrow> Inl (ValueError ''invalid literal for int() with base 10'')
            | Some v \<Rightarrow>
                Inr (Some \<lparr>page_title_id = n, page_title = title_field line, pageviews = v,
                           year = y, month = m, day = d, hour = h\<rparr>))
      else Inr None)"
  by (simp add: process_line_def watchlist_line_def well_formed_def title_field_def
      views_field_def line_fields_def Let_def not_less numeral_2_eq_2 split: option.splits)

lemma process_line_row:
  assumes "process_line ts line n = Inr (Some r)"
  shows "watchlist_line line" and "page_title_id r = n" and "page_title r = title_field line"
    and "(year r, month r, day r, hour r) = ts"
proof -
  obtain y m d h where ts: "ts = (y, m, d, h)" by (cases ts) auto
  from assms ts show "watchlist_line line" and "page_title_id r = n"
    and "page_title r = title_field line" and "(year r, month r, day r, hour r) = ts"
    by (auto simp: process_line_eq split: if_splits option.splits)
qed

lemma process_line_skip:
  assumes "process_line ts line n = Inr None"
  shows "\<not> watchlist_line line"
proof -
  obtain y m d h where ts: "ts = (y, m, d, h)" by (cases ts) auto
  from assms ts show ?thesis
    by (auto simp: process_line_eq split: if_splits option.splits)
qed

lemma process_line_raises:
  "(\<exists>e. process_line ts line n = Inl e) \<longleftrightarrow>
   well_formed line \<and> title_field line \<in> COMPANIES \<and> py_int (views_field line) = None"
proof -
  obtain y m d h where ts: "ts = (y, m, d, h)" by (cases ts) auto
  show ?thesis
    by (auto simp: ts process_line_eq watchlist_line_def split: option.splits)
qed

subsection \<open>The loop\<close>

lemma upto_snoc: "[1..int k] @ [1 + int k] = [1..1 + int k]"
  using upto_rec2 [of 1 "1 + int k"] by simp

text \<open>
  The loop invariant: the counter is one more than the number of rows written, and
  the rows written carry the keys 1, 2, ... in this order.
\<close>

lemma transform_lines_ids:
  "transform_lines ts ls n rows = (e, n', rows') \<Longrightarrow>
   n = 1 + int (length rows) \<Longrightarrow> map page_title_id rows = [1..int (length rows)] \<Longrightarrow>
   n' = 1 + int (length rows') \<and> map page_title_id rows' = [1..int (length rows')]"
proof (induction ls arbitrary: n rows)
  case Nil
  then show ?case by auto
next
  case (Cons l ls)
  show ?case
  proof (cases "process_line ts l n")
    case (Inl e')
    with Cons.prems show ?thesis by auto
  next
    case (Inr w)
    show ?thesis
    proof (cases w)
      case None
      with Inr Cons.prems have "transform_lines ts ls n rows = (e, n', rows')" by simp
      from Cons.IH [OF this Cons.prems(2,3)] show ?thesis .
    next
      case (Some r)
      with Inr Cons.prems have run: "transform_lines ts ls (n + 1) (rows @ [r]) = (e, n', rows')"
        by simp
      from Inr Some have "page_title_id r = n"
        by (simp add: process_line_row(2))
      with Cons.prems(2,3) have "n + 1 = 1 + int (length (rows @ [r]))"
        and "map page_title_id (rows @ [r]) = [1..int (length (rows @ [r]))]"
        using upto_snoc [of "length rows"] by (simp_all add: add.commute)
      from Cons.IH [OF run this] show ?thesis .
    qed
  qed
qed

lemma transform_lines_titles:
  "transform_lines ts ls n rows = (None, n', rows') \<Longrightarrow>
   map page_title rows' = map page_title rows @ map title_field (filter watchlist_line ls)"
proof (induction ls arbitrary: n rows)
  case Nil
  then show ?case by simp
next
  case (Cons l ls)
  show ?case
  proof (cases "process_line ts l n")
    case (Inl e')
    with Cons.prems show ?thesis by simp
  next
    case (Inr w)
    show ?thesis
    proof (cases w)
      case None
      with Inr have "\<not> watchlist_line l"
        by (simp add: process_line_skip)
      moreover from None Inr Cons.prems have "transform_lines ts ls n rows = (None, n', rows')"
        by simp
      ultimately show ?thesis using Cons.IH by simp
    next
      case (Some r)
      with Inr have "watchlist_line l" and "page_title r = title_field l"
        by (simp_all add: process_line_row)
      moreover from Some Inr Cons.prems
      have "transform_lines ts ls (n + 1) (rows @ [r]) = (None, n', rows')" by simp
      ultimately show ?thesis using Cons.IH by simp
    qed
  qed
qed

lemma transform_lines_all:
  assumes step: "\<And>l k r. process_line ts l k = Inr (Some r) \<Longrightarrow> P r"
  shows "transform_lines ts ls n rows = (e, n', rows') \<Longrightarrow> \<forall>r\<in>set rows. P r \<Longrightarrow>
         \<forall>r\<in>set rows'. P r"
proof (induction ls arbitrary: n rows)
  case Nil
  then show ?case by simp
next
  case (Cons l ls)
  show ?case
  proof (cases "process_line ts l n")
    case (Inl e')
    with Cons.prems show ?thesis by simp
  next
    case (Inr w)
    show ?thesis
    proof (cases w)
      case None
      with Inr Cons.prems have "transform_lines ts ls n rows = (e, n', rows')" by simp
      from Cons.IH [OF this Cons.prems(2)] show ?thesis .
    next
      case (Some r)
      with Inr Cons.prems have run: "transform_lines ts ls (n + 1) (rows @ [r]) = (e, n', rows')"
        by simp
      from Inr Some have "P r" using step by simp
      with Cons.prems(2) have "\<forall>x\<in>set (rows @ [r]). P x" by simp
      from Cons.IH [OF run this] show ?thesis .
    qed
  qed
qed

lemma transform_lines_error:
  "fst (transform_lines ts ls n rows) = None \<longleftrightarrow>
   (\<forall>l\<in>set ls. watchlist_line l \<longrightarrow> py_int (views_field l) \<noteq> None)"
proof (induction ls arbitrary: n rows)
  case Nil
  then show ?case by simp
next
  case (Cons l ls)
  obtain y m d h where ts: "ts = (y, m, d, h)" by (cases ts) auto
  show ?case
    using Cons.IH by (auto simp: ts process_line_eq split: option.splits)
qed

subsection \<open>The whole call\<close>

lemma transform_pageviews_run:
  assumes "strptime (normalize_time event_time) = Inr ts"
  obtains e n rows where "transform_lines ts lines 1 [] = (e, n, rows)"
    and "snd (transform_pageviews lines event_time) = Some rows"
    and "fst (transform_pageviews lines event_time) = Inr () \<longleftrightarrow> e = None"
proof -
  obtain e n rows where run: "transform_lines ts lines 1 [] = (e, n, rows)"
    by (cases "transform_lines ts lines 1 []") auto
  with assms have "snd (transform_pageviews lines event_time) = Some rows"
    and "fst (transform_pageviews lines event_time) = Inr () \<longleftrightarrow> e = None"
    by (auto simp: transform_pageviews_def split: option.splits)
  with run show ?thesis using that by blast
qed

lemma transform_pageviews_rows:
  assumes "snd (transform_pageviews lines event_time) = Some rows"
  obtains ts e n where "strptime (normalize_time event_time) = Inr ts"
    and "transform_lines ts lines 1 [] = (e, n, rows)"
  using assms
  by (auto simp: transform_pageviews_def split: sum.splits prod.splits option.splits)

subsection \<open>The claims about the Transformer\<close>

text \<open>
  Claim C10. Transforming the single line \<^verbatim>\<open>23 Apple_Inc. 451 999\<close> with the execution
  timestamp \<^verbatim>\<open>20251210-16\<close> returns normally and writes exactly one row, namely
  \<open>(1, Apple_Inc., 451, 2025, 12, 10, 16)\<close>.
\<close>

theorem transform_example:
  "transform_pageviews [''23 Apple_Inc. 451 999''] ''20251210-16'' =
     (Inr (), Some [\<lparr>page_title_id = 1, page_title = ''Apple_Inc.'', pageviews = 451,
                      year = 2025, month = 12, day = 10, hour = 16\<rparr>])"
  by code_simp

text \<open>
  Claim C1. For every input file and every timestamp that parses, the keys
  \<open>page_title_id\<close> of the rows in the output are \<open>1, 2, ..., N\<close> in this order, \<open>N\<close> being
  the number of rows written; and when the call returns, \<open>N\<close> is the number of lines
  with at least four fields whose title is in the watchlist, the rows standing in
  the order of these lines. The counter is no argument of the call: it starts at 1
  each time.
\<close>

theorem surrogate_keys_contiguous:
  assumes "strptime (normalize_time event_time) = Inr ts"
  shows "\<exists>rows. snd (transform_pageviews lines event_time) = Some rows \<and>
           map page_title_id rows = [1..int (length rows)] \<and>
           (fst (transform_pageviews lines event_time) = Inr () \<longrightarrow>
              length rows = length (filter watchlist_line lines) \<and>
              map page_title rows = map title_field (filter watchlist_line lines))"
proof -
  from assms obtain e n rows where run: "transform_lines ts lines 1 [] = (e, n, rows)"
    and out: "snd (transform_pageviews lines event_time) = Some rows"
    and ok: "fst (transform_pageviews lines event_time) = Inr () \<longleftrightarrow> e = None"
    by (rule transform_pageviews_run)
  from transform_lines_ids [OF run] have ids: "map page_title_id rows = [1..int (length rows)]"
    by simp
  have "map page_title rows = map title_field (filter watchlist_line lines)"
    if "fst (transform_pageviews lines event_time) = Inr ()"
  proof -
    from that ok run have "transform_lines ts lines 1 [] = (None, n, rows)" by simp
    from transform_lines_titles [OF this] show ?thesis by simp
  qed
  moreover have "length rows = length (filter watchlist_line lines)"
    if "map page_title rows = map title_field (filter watchlist_line lines)"
    using that by (metis length_map)
  ultimately show ?thesis using out ids by blast
qed

theorem surrogate_keys_contiguous_witness:
  "strptime (normalize_time ''20251210-16'') = Inr (2025, 12, 10, 16) \<and>
   fst (transform_pageviews
          [''en X'', ''en Google 7 0'', ''en Some_Other_Page 900 120'', ''23 Apple_Inc. 451 999'']
          ''20251210-16'') = Inr () \<and>
   (\<exists>rows. snd (transform_pageviews
          [''en X'', ''en Google 7 0'', ''en Some_Other_Page 900 120'', ''23 Apple_Inc. 451 999'']
          ''20251210-16'') = Some rows \<and>
      map page_title_id rows = [1..int (length rows)] \<and>
      length rows = 2 \<and> map page_title rows = [''Google'', ''Apple_Inc.''])"
proof -
  let ?L = "[''en X'', ''en Google 7 0'', ''en Some_Other_Page 900 120'', ''23 Apple_Inc. 451 999'']"
  have ts: "strptime (normalize_time ''20251210-16'') = Inr (2025, 12, 10, 16)"
    by code_simp
  have ok: "fst (transform_pageviews ?L ''20251210-16'') = Inr ()"
    by code_simp
  have n: "length (filter watchlist_line ?L) = 2"
    and t: "map title_field (filter watchlist_line ?L) = [''Google'', ''Apple_Inc.'']"
    by code_simp+
  from surrogate_keys_contiguous [OF ts, of ?L] ok n t ts show ?thesis
    by auto
qed

text \<open>
  Claim C2. The watchlist is the set of the five titles \<^verbatim>\<open>Amazon\<close>, \<^verbatim>\<open>Apple_Inc.\<close>,
  \<^verbatim>\<open>Facebook\<close>, \<^verbatim>\<open>Google\<close> and \<^verbatim>\<open>Microsoft\<close>; every row written has its title in
  this set, membership being equality of strings; and a line whose title field is
  not in the set writes no row (and raises nothing).
\<close>

theorem titles_in_watchlist:
  "COMPANIES = {''Amazon'', ''Apple_Inc.'', ''Facebook'', ''Google'', ''Microsoft''} \<and>
   card COMPANIES = 5 \<and>
   (snd (transform_pageviews lines event_time) = Some rows \<longrightarrow> r \<in> set rows \<longrightarrow>
      page_title r \<in> COMPANIES) \<and>
   (title_field line \<notin> COMPANIES \<longrightarrow> process_line ts line n = Inr None)"
proof -
  have "page_title r \<in> COMPANIES"
    if out: "snd (transform_pageviews lines event_time) = Some rows" and r: "r \<in> set rows"
  proof -
    from out obtain ts' e k where run: "transform_lines ts' lines 1 [] = (e, k, rows)"
      by (rule transform_pageviews_rows)
    have "\<forall>x\<in>set rows. page_title x \<in> COMPANIES"
    proof (rule transform_lines_all [OF _ run])
      fix l k x
      assume "process_line ts' l k = Inr (Some x)"
      from process_line_row(1,3) [OF this] show "page_title x \<in> COMPANIES"
        by (simp add: watchlist_line_def)
    qed simp
    with r show ?thesis by blast
  qed
  moreover have "process_line ts line n = Inr None" if "title_field line \<notin> COMPANIES"
  proof -
    obtain y m d h where ts: "ts = (y, m, d, h)" by (cases ts) auto
    from that show ?thesis by (simp add: ts process_line_eq watchlist_line_def)
  qed
  moreover have "card COMPANIES = 5"
    by (simp add: COMPANIES_def)
  ultimately show ?thesis by (simp add: COMPANIES_def)
qed

theorem titles_in_watchlist_witness:
  "snd (transform_pageviews [''en amazon 5 0'', ''en Amazon 6 0''] ''20251210-16'') =
     Some [\<lparr>page_title_id = 1, page_title = ''Amazon'', pageviews = 6,
             year = 2025, month = 12, day = 10, hour = 16\<rparr>] \<and>
   ''Amazon'' \<in> COMPANIES \<and>
   title_field ''en amazon 5 0'' \<notin> COMPANIES \<and>
   process_line (2025, 12, 10, 16) ''en amazon 5 0'' 1 = Inr None"
proof -
  let ?r = "\<lparr>page_title_id = 1, page_title = ''Amazon'', pageviews = 6,
             year = 2025, month = 12, day = 10, hour = 16\<rparr>"
  have out: "snd (transform_pageviews [''en amazon 5 0'', ''en Amazon 6 0''] ''20251210-16'') =
     Some [?r]"
    by code_simp
  have no: "title_field ''en amazon 5 0'' \<notin> COMPANIES"
    by code_simp
  from titles_in_watchlist [of "[''en amazon 5 0'', ''en Amazon 6 0'']" "''20251210-16''" "[?r]" ?r
      "''en amazon 5 0''" "(2025, 12, 10, 16)" 1] out no
  show ?thesis by simp
qed

text \<open>
  Claim C3. A line with fewer than four white-space separated fields is passed over:
  no error, no row, and the loop goes on with the same counter and the same rows. A
  line raises exactly when it has at least four fields, its title (field 1) is in
  the watchlist and its view count (field 2) is not an integer for \<^verbatim>\<open>int\<close>; so,
  once the timestamp has parsed, the call raises exactly when the input has such a
  line.
\<close>

theorem line_errors:
  "(\<not> well_formed line \<longrightarrow>
      process_line ts line n = Inr None \<and>
      transform_lines ts (line # rest) n rows = transform_lines ts rest n rows) \<and>
   ((\<exists>e. process_line ts line n = Inl e) \<longleftrightarrow>
      well_formed line \<and> title_field line \<in> COMPANIES \<and> py_int (views_field line) = None) \<and>
   (strptime (normalize_time event_time) = Inr ts \<longrightarrow>
      ((\<exists>e. fst (transform_pageviews lines event_time) = Inl e) \<longleftrightarrow>
       (\<exists>l\<in>set lines. well_formed l \<and> title_field l \<in> COMPANIES \<and>
                       py_int (views_field l) = None)))"
proof -
  obtain y m d h where ts: "ts = (y, m, d, h)" by (cases ts) auto
  have skip: "process_line ts line n = Inr None" if "\<not> well_formed line"
    using that by (simp add: ts process_line_eq watchlist_line_def)
  then have a: "\<not> well_formed line \<longrightarrow>
      process_line ts line n = Inr None \<and>
      transform_lines ts (line # rest) n rows = transform_lines ts rest n rows"
    by simp
  have c: "(\<exists>e. fst (transform_pageviews lines event_time) = Inl e) \<longleftrightarrow>
       (\<exists>l\<in>set lines. well_formed l \<and> title_field l \<in> COMPANIES \<and>
                       py_int (views_field l) = None)"
    if "strptime (normalize_time event_time) = Inr ts"
  proof -
    from that obtain e k out where run: "transform_lines ts lines 1 [] = (e, k, out)"
      and ok: "fst (transform_pageviews lines event_time) = Inr () \<longleftrightarrow> e = None"
      by (rule transform_pageviews_run)
    have "(\<exists>e'. fst (transform_pageviews lines event_time) = Inl e') \<longleftrightarrow> e \<noteq> None"
      using ok by (cases "fst (transform_pageviews lines event_time)") auto
    also have "\<dots> \<longleftrightarrow> fst (transform_lines ts lines 1 []) \<noteq> None"
      by (simp add: run)
    also have "\<dots> \<longleftrightarrow> (\<exists>l\<in>set lines. well_formed l \<and> title_field l \<in> COMPANIES \<and>
                       py_int (views_field l) = None)"
      by (auto simp: transform_lines_error watchlist_line_def)
    finally show ?thesis .
  qed
  from a process_line_raises [of ts line n] c show ?thesis by blast
qed

theorem line_errors_witness:
  "\<not> well_formed ''en X'' \<and>
   process_line (2025, 12, 10, 16) ''en X'' 1 = Inr None \<and>
   transform_lines (2025, 12, 10, 16) [''en X'', ''en Google 4.5 1''] 1 [] =
     transform_lines (2025, 12, 10, 16) [''en Google 4.5 1''] 1 [] \<and>
   (\<exists>e. process_line (2025, 12, 10, 16) ''en Google 4.5 1'' 1 = Inl e) \<and>
   strptime (normalize_time ''20251210-16'') = Inr (2025, 12, 10, 16) \<and>
   (\<exists>e. fst (transform_pageviews [''en X'', ''en Google 4.5 1''] ''20251210-16'') = Inl e)"
proof -
  have a: "\<not> well_formed ''en X''" by code_simp
  have b: "well_formed ''en Google 4.5 1'' \<and> title_field ''en Google 4.5 1'' \<in> COMPANIES \<and>
           py_int (views_field ''en Google 4.5 1'') = None"
    by code_simp
  have c: "strptime (normalize_time ''20251210-16'') = Inr (2025, 12, 10, 16)" by code_simp
  from line_errors [of "''en X''" "(2025, 12, 10, 16)" 1 "[''en Google 4.5 1'']" "[]"
      "''20251210-16''" "[''en X'', ''en Google 4.5 1'']"] a
  have 1: "process_line (2025, 12, 10, 16) ''en X'' 1 = Inr None"
    and 2: "transform_lines (2025, 12, 10, 16) [''en X'', ''en Google 4.5 1''] 1 [] =
            transform_lines (2025, 12, 10, 16) [''en Google 4.5 1''] 1 []"
    by blast+
  from line_errors [of "''en Google 4.5 1''" "(2025, 12, 10, 16)" 1 "[]" "[]"
      "''20251210-16''" "[''en X'', ''en Google 4.5 1'']"] b c
  have 3: "\<exists>e. process_line (2025, 12, 10, 16) ''en Google 4.5 1'' 1 = Inl e"
    and 4: "\<exists>e. fst (transform_pageviews [''en X'', ''en Google 4.5 1''] ''20251210-16'') = Inl e"
    by auto
  from a 1 2 3 4 c show ?thesis by blast
qed

text \<open>
  Claim C9. Within one call every row written carries the same
  \<open>(year, month, day, hour)\<close>, and it is the one the execution timestamp parses to,
  whatever the input lines are.
\<close>

theorem time_fields_constant:
  assumes "strptime (normalize_time event_time) = Inr (y, m, d, h)"
    and "snd (transform_pageviews lines event_time) = Some rows"
    and "r \<in> set rows"
  shows "year r = y \<and> month r = m \<and> day r = d \<and> hour r = h"
proof -
  from assms(2) obtain ts e k where ts: "strptime (normalize_time event_time) = Inr ts"
    and run: "transform_lines ts lines 1 [] = (e, k, rows)"
    by (rule transform_pageviews_rows)
  from ts assms(1) have ts_eq: "ts = (y, m, d, h)" by simp
  have "\<forall>x\<in>set rows. (year x, month x, day x, hour x) = ts"
  proof (rule transform_lines_all [OF _ run])
    fix l k x
    assume "process_line ts l k = Inr (Some x)"
    from process_line_row(4) [OF this] show "(year x, month x, day x, hour x) = ts" .
  qed simp
  with assms(3) ts_eq show ?thesis by auto
qed

theorem time_fields_constant_witness:
  "strptime (normalize_time ''20251210-16'') = Inr (2025, 12, 10, 16) \<and>
   snd (transform_pageviews [''en Google 7 0'', ''23 Apple_Inc. 451 999''] ''20251210-16'') =
     Some [\<lparr>page_title_id = 1, page_title = ''Google'', pageviews = 7,
             year = 2025, month = 12, day = 10, hour = 16\<rparr>,
           \<lparr>page_title_id = 2, page_title = ''Apple_Inc.'', pageviews = 451,
             year = 2025, month = 12, day = 10, hour = 16\<rparr>] \<and>
   year \<lparr>page_title_id = 2, page_title = ''Apple_Inc.'', pageviews = 451,
             year = 2025, month = 12, day = 10, hour = 16\<rparr> = 2025"
proof -
  let ?r1 = "\<lparr>page_title_id = 1, page_title = ''Google'', pageviews = 7,
             year = 2025, month = 12, day = 10, hour = 16\<rparr>"
  let ?r2 = "\<lparr>page_title_id = 2, page_title = ''Apple_Inc.'', pageviews = 451,
             year = 2025, month = 12, day = 10, hour = 16\<rparr>"
  have ts: "strptime (normalize_time ''20251210-16'') = Inr (2025, 12, 10, 16)"
    by code_simp
  have out: "snd (transform_pageviews [''en Google 7 0'', ''23 Apple_Inc. 451 999'']
                ''20251210-16'') = Some [?r1, ?r2]"
    by code_simp
  have mem: "?r2 \<in> set [?r1, ?r2]" by simp
  from time_fields_constant [OF ts out mem] ts out show ?thesis by simp
qed


subsection \<open>The timestamp\<close>








subsection \<open>What the parse refuses\<close>
























section \<open>Properties of the Loader and the Analyzer\<close>

subsection \<open>What logging and calls leave alone\<close>

lemma logger_fields [simp]:
  "store (logger l m w) = store w"
  "working (logger l m w) = working w"
  "calls (logger l m w) = calls w"
  "csv_files (logger l m w) = csv_files w"
  "analysis_log_dir (logger l m w) = analysis_log_dir w"
  "analysis_log (logger l m w) = analysis_log w"
  "pipeline_log (logger l m w) = (if l = DEBUG then pipeline_log w else pipeline_log w @ [(l, m)])"
  by (simp_all add: logger_def)

lemma call_fields [simp]:
  "store (call c w) = store w"
  "working (call c w) = working w"
  "calls (call c w) = calls w @ [c]"
  "csv_files (call c w) = csv_files w"
  "analysis_log_dir (call c w) = analysis_log_dir w"
  "analysis_log (call c w) = analysis_log w"
  "pipeline_log (call c w) = pipeline_log w"
  by (simp_all add: call_def)

lemma open_cursor_fields [simp]:
  "store (open_cursor c w) = store w"
  "working (open_cursor c w) = store w"
  "calls (open_cursor c w) = calls w @ [GetConn, Cursor]"
  "csv_files (open_cursor c w) = csv_files w"
  "analysis_log_dir (open_cursor c w) = analysis_log_dir w"
  "analysis_log (open_cursor c w) = analysis_log w"
  "pipeline_log (open_cursor c w) = pipeline_log w"
  by (simp_all add: open_cursor_def Let_def)

lemma commit_fields [simp]:
  "store (commit w) = working w"
  "calls (commit w) = calls w @ [Commit]"
  "csv_files (commit w) = csv_files w"
  "analysis_log_dir (commit w) = analysis_log_dir w"
  "analysis_log (commit w) = analysis_log w"
  "pipeline_log (commit w) = pipeline_log w"
  by (simp_all add: commit_def)

lemma rollback_fields [simp]:
  "store (rollback w) = store w"
  "calls (rollback w) = calls w @ [Rollback]"
  "csv_files (rollback w) = csv_files w"
  "analysis_log_dir (rollback w) = analysis_log_dir w"
  "analysis_log (rollback w) = analysis_log w"
  "pipeline_log (rollback w) = pipeline_log w"
  by (simp_all add: rollback_def)

lemma close_fields [simp]:
  "store (close w) = store w"
  "calls (close w) = calls w @ [CursorClose, ConnectionClose]"
  "csv_files (close w) = csv_files w"
  "analysis_log_dir (close w) = analysis_log_dir w"
  "analysis_log (close w) = analysis_log w"
  "pipeline_log (close w) = pipeline_log w"
  by (simp_all add: close_def)

subsection \<open>The scoped cursor, for any body\<close>

lemma postgres_cursor_returns:
  assumes "postgres_cursor c body w = (Inr v, w')"
  obtains wb where "body (open_cursor c w) = (Inr v, wb)" and "w' = close (commit wb)"
  using assms by (auto simp: postgres_cursor_def split: prod.splits sum.splits)

lemma postgres_cursor_raises:
  assumes "postgres_cursor c body w = (Inl e, w')"
  obtains wb where "body (open_cursor c w) = (Inl e, wb)"
    and "w' = close (logger ERROR ''Postgres transaction failed and was rolled back'' (rollback wb))"
  using assms by (auto simp: postgres_cursor_def split: prod.splits sum.splits)

subsection \<open>The statements of a load\<close>

lemma execute_insert_frame:
  assumes "execute_insert cast row w = (r, w')"
  shows "store w' = store w" and "csv_files w' = csv_files w"
    and "pipeline_log w' = pipeline_log w"
    and "analysis_log w' = analysis_log w" and "analysis_log_dir w' = analysis_log_dir w"
  using assms by (auto simp: execute_insert_def Let_def split: sum.splits)

lemma insert_rows_frame:
  "insert_rows cast rows w = (r, w') \<Longrightarrow>
   store w' = store w \<and> csv_files w' = csv_files w \<and> pipeline_log w' = pipeline_log w \<and>
   analysis_log w' = analysis_log w \<and> analysis_log_dir w' = analysis_log_dir w"
proof (induction rows arbitrary: w)
  case Nil
  then show ?case by auto
next
  case (Cons row rows)
  obtain r1 w1 where step: "execute_insert cast row w = (r1, w1)"
    by (cases "execute_insert cast row w") auto
  note frame = execute_insert_frame [OF step]
  show ?case
  proof (cases r1)
    case (Inl e)
    with step Cons.prems frame show ?thesis by auto
  next
    case (Inr u)
    with step Cons.prems have "insert_rows cast rows w1 = (r, w')" by simp
    from Cons.IH [OF this] frame show ?thesis by simp
  qed
qed

text \<open>The calls of the loop are the \<^verbatim>\<open>INSERT\<close> statements, one for each row in order.\<close>

lemma insert_rows_calls:
  "insert_rows cast rows w = (r, w') \<Longrightarrow>
   \<exists>ps. calls w' = calls w @ map (\<lambda>p. Execute (InsertRow p)) ps \<and>
        (r = Inr () \<longrightarrow> map row_params rows = map Inr ps)"
proof (induction rows arbitrary: w)
  case Nil
  then show ?case by auto
next
  case (Cons row rows)
  obtain r1 w1 where step: "execute_insert cast row w = (r1, w1)"
    by (cases "execute_insert cast row w") auto
  show ?case
  proof (cases "row_params row")
    case (Inl e)
    with step Cons.prems have "w' = w" and "r = Inl e"
      by (auto simp: execute_insert_def)
    then have "calls w' = calls w @ map (\<lambda>p. Execute (InsertRow p)) [] \<and>
        (r = Inr () \<longrightarrow> map row_params (row # rows) = map Inr [])"
      by simp
    then show ?thesis by blast
  next
    case (Inr p)
    with step have c1: "calls w1 = calls w @ [Execute (InsertRow p)]"
      by (auto simp: execute_insert_def Let_def split: sum.splits)
    show ?thesis
    proof (cases r1)
      case (Inl e)
      with step Cons.prems have "w' = w1" and "r = Inl e" by auto
      with c1 have "calls w' = calls w @ map (\<lambda>p. Execute (InsertRow p)) [p] \<and>
          (r = Inr () \<longrightarrow> map row_params (row # rows) = map Inr [p])"
        by simp
      then show ?thesis by blast
    next
      case (Inr u)
      with step Cons.prems have "insert_rows cast rows w1 = (r, w')" by simp
      from Cons.IH [OF this] obtain ps
        where "calls w' = calls w1 @ map (\<lambda>p. Execute (InsertRow p)) ps"
          and "r = Inr () \<longrightarrow> map row_params rows = map Inr ps"
        by blast
      with c1 \<open>row_params row = Inr p\<close>
      have "calls w' = calls w @ map (\<lambda>p. Execute (InsertRow p)) (p # ps) \<and>
          (r = Inr () \<longrightarrow> map row_params (row # rows) = map Inr (p # ps))"
        by simp
      then show ?thesis by blast
    qed
  qed
qed

text \<open>The outcome of the loop and the table it leaves are those of \<open>apply_rows\<close>.\<close>

lemma insert_rows_outcome:
  "insert_rows cast rows w = (r, w') \<Longrightarrow> working w = Some t \<Longrightarrow>
   (case apply_rows cast rows t of
      Inl e \<Rightarrow> r = Inl e
    | Inr t' \<Rightarrow> r = Inr () \<and> working w' = Some t')"
proof (induction rows arbitrary: w t)
  case Nil
  then show ?case by auto
next
  case (Cons row rows)
  show ?case
  proof (cases "row_params row")
    case (Inl e)
    with Cons.prems show ?thesis by (auto simp: execute_insert_def)
  next
    case (Inr p)
    show ?thesis
    proof (cases "sql_insert cast p (Some t)")
      case (Inl e)
      with Inr Cons.prems show ?thesis by (auto simp: execute_insert_def Let_def)
    next
      case (Inr t1)
      define w1 where "w1 = (call (Execute (InsertRow p)) w)\<lparr>working := Some t1\<rparr>"
      from Inr \<open>row_params row = Inr p\<close> Cons.prems(2)
      have step: "execute_insert cast row w = (Inr (), w1)"
        by (simp add: execute_insert_def Let_def w1_def)
      with Cons.prems(1) have run: "insert_rows cast rows w1 = (r, w')" by simp
      have "working w1 = Some t1" by (simp add: w1_def)
      from Cons.IH [OF run this] Inr \<open>row_params row = Inr p\<close> show ?thesis by simp
    qed
  qed
qed

lemma load_body_frame:
  assumes "load_body cast f w = (r, w')"
  shows "store w' = store w \<and> csv_files w' = csv_files w \<and> pipeline_log w' = pipeline_log w \<and>
         analysis_log w' = analysis_log w \<and> analysis_log_dir w' = analysis_log_dir w"
proof -
  define w1 where "w1 = (call (Execute CreateTable) w)
      \<lparr>working := Some (case working w of None \<Rightarrow> [] | Some t \<Rightarrow> t)\<rparr>"
  have c: "execute_create w = (Inr (), w1)"
    by (simp add: execute_create_def Let_def w1_def)
  have f1: "store w1 = store w" "csv_files w1 = csv_files w" "pipeline_log w1 = pipeline_log w"
    "analysis_log w1 = analysis_log w" "analysis_log_dir w1 = analysis_log_dir w"
    by (simp_all add: w1_def)
  show ?thesis
  proof (cases "csv_files w f")
    case None
    with assms c f1 show ?thesis by (auto simp: load_body_def)
  next
    case (Some rows)
    with assms c f1 have "insert_rows cast rows w1 = (r, w')"
      by (simp add: load_body_def)
    from insert_rows_frame [OF this] f1 show ?thesis by simp
  qed
qed

lemma load_body_calls:
  assumes "load_body cast f w = (r, w')"
  shows "\<exists>stmts. calls w' = calls w @ map Execute stmts \<and>
           (r = Inr () \<longrightarrow>
              (\<exists>rows ps. csv_files w f = Some rows \<and> map row_params rows = map Inr ps \<and>
                          stmts = CreateTable # map InsertRow ps))"
proof -
  define w1 where "w1 = (call (Execute CreateTable) w)
      \<lparr>working := Some (case working w of None \<Rightarrow> [] | Some t \<Rightarrow> t)\<rparr>"
  have c: "execute_create w = (Inr (), w1)"
    by (simp add: execute_create_def Let_def w1_def)
  have f1: "calls w1 = calls w @ [Execute CreateTable]" "csv_files w1 = csv_files w"
    by (simp_all add: w1_def)
  show ?thesis
  proof (cases "csv_files w f")
    case None
    with assms c f1 have "calls w' = calls w @ map Execute [CreateTable]" and "r \<noteq> Inr ()"
      by (auto simp: load_body_def)
    then show ?thesis by blast
  next
    case (Some rows)
    with assms c f1 have "insert_rows cast rows w1 = (r, w')"
      by (simp add: load_body_def)
    from insert_rows_calls [OF this] obtain ps
      where "calls w' = calls w1 @ map (\<lambda>p. Execute (InsertRow p)) ps"
        and "r = Inr () \<longrightarrow> map row_params rows = map Inr ps"
      by blast
    with f1 Some have "calls w' = calls w @ map Execute (CreateTable # map InsertRow ps)"
      and "r = Inr () \<longrightarrow> csv_files w f = Some rows \<and> map row_params rows = map Inr ps \<and>
             CreateTable # map InsertRow ps = CreateTable # map InsertRow ps"
      by (simp_all add: comp_def)
    then show ?thesis by blast
  qed
qed

lemma load_body_outcome:
  assumes "load_body cast f w = (r, w')"
  shows "(case csv_files w f of
            None \<Rightarrow> r = Inl FileNotFoundError
          | Some rows \<Rightarrow>
              (case apply_rows cast rows (case working w of None \<Rightarrow> [] | Some t \<Rightarrow> t) of
                 Inl e \<Rightarrow> r = Inl e
               | Inr t' \<Rightarrow> r = Inr () \<and> working w' = Some t'))"
proof -
  define t0 where "t0 = (case working w of None \<Rightarrow> [] | Some t \<Rightarrow> t)"
  define w1 where "w1 = (call (Execute CreateTable) w)\<lparr>working := Some t0\<rparr>"
  have c: "execute_create w = (Inr (), w1)"
    by (simp add: execute_create_def Let_def w1_def t0_def)
  have f1: "working w1 = Some t0" "csv_files w1 = csv_files w"
    by (simp_all add: w1_def)
  show ?thesis
  proof (cases "csv_files w f")
    case None
    with assms c f1 show ?thesis by (auto simp: load_body_def)
  next
    case (Some rows)
    with assms c f1 have "insert_rows cast rows w1 = (r, w')"
      by (simp add: load_body_def)
    from insert_rows_outcome [OF this f1(1)] Some show ?thesis
      by (simp add: t0_def)
  qed
qed

subsection \<open>Loading again\<close>

lemma sql_insert_Inr:
  assumes "sql_insert cast p (Some t) = Inr t1"
  shows "\<exists>r. cast_row cast p = Some r \<and> page_title_id r \<in> set (map page_title_id t1) \<and>
             set (map page_title_id t) \<subseteq> set (map page_title_id t1)"
  using assms by (auto simp: sql_insert_def split: option.splits if_splits)

lemma sql_insert_conflict:
  "cast_row cast p = Some r \<Longrightarrow> page_title_id r \<in> set (map page_title_id t) \<Longrightarrow>
   sql_insert cast p (Some t) = Inr t"
  by (simp add: sql_insert_def)

lemma apply_rows_keys:
  "apply_rows cast rows t = Inr t' \<Longrightarrow> set (map page_title_id t) \<subseteq> set (map page_title_id t')"
proof (induction rows arbitrary: t)
  case Nil
  then show ?case by simp
next
  case (Cons row rows)
  from Cons.prems obtain p t1 where p: "row_params row = Inr p"
    and ins: "sql_insert cast p (Some t) = Inr t1" and rest: "apply_rows cast rows t1 = Inr t'"
    by (auto split: sum.splits)
  from sql_insert_Inr [OF ins]
  have "set (map page_title_id t) \<subseteq> set (map page_title_id t1)" by blast
  with Cons.IH [OF rest] show ?case by blast
qed

lemma apply_rows_again:
  "apply_rows cast rows t = Inr t' \<Longrightarrow>
   set (map page_title_id t') \<subseteq> set (map page_title_id u) \<Longrightarrow>
   apply_rows cast rows u = Inr u"
proof (induction rows arbitrary: t)
  case Nil
  then show ?case by simp
next
  case (Cons row rows)
  from Cons.prems(1) obtain p t1 where p: "row_params row = Inr p"
    and ins: "sql_insert cast p (Some t) = Inr t1" and rest: "apply_rows cast rows t1 = Inr t'"
    by (auto split: sum.splits)
  from sql_insert_Inr [OF ins] obtain r where r: "cast_row cast p = Some r"
    and mem: "page_title_id r \<in> set (map page_title_id t1)"
    by blast
  from apply_rows_keys [OF rest] mem Cons.prems(2)
  have "page_title_id r \<in> set (map page_title_id u)" by blast
  with r have "sql_insert cast p (Some u) = Inr u" by (rule sql_insert_conflict)
  with p Cons.IH [OF rest Cons.prems(2)] show ?case by simp
qed

subsection \<open>The whole load\<close>

lemma load_to_postgres_run:
  assumes "load_to_postgres cast f c w = (r, w')"
  shows "\<exists>wb.
    load_body cast f
      (open_cursor c (logger INFO (''Loading transformed data into Postgres | file='' @ f) w)) =
      (r, wb) \<and>
    w' = (if r = Inr ()
          then logger INFO ''Data successfully loaded into Postgres'' (close (commit wb))
          else close (logger ERROR ''Postgres transaction failed and was rolled back''
                        (rollback wb)))"
proof -
  let ?w1 = "logger INFO (''Loading transformed data into Postgres | file='' @ f) w"
  obtain rb wb where body: "load_body cast f (open_cursor c ?w1) = (rb, wb)"
    by (cases "load_body cast f (open_cursor c ?w1)") auto
  show ?thesis
  proof (cases rb)
    case (Inl e)
    with body assms show ?thesis
      by (auto simp: load_to_postgres_def postgres_cursor_def Let_def)
  next
    case (Inr u)
    with body assms show ?thesis
      by (auto simp: load_to_postgres_def postgres_cursor_def Let_def)
  qed
qed

lemma load_to_postgres_store:
  assumes "load_to_postgres cast f c w = (r, w')"
  shows "csv_files w' = csv_files w"
    and "(case csv_files w f of
            None \<Rightarrow> r = Inl FileNotFoundError \<and> store w' = store w
          | Some rows \<Rightarrow>
              (case apply_rows cast rows (case store w of None \<Rightarrow> [] | Some t \<Rightarrow> t) of
                 Inl e \<Rightarrow> r = Inl e \<and> store w' = store w
               | Inr t' \<Rightarrow> r = Inr () \<and> store w' = Some t'))"
proof -
  let ?w1 = "logger INFO (''Loading transformed data into Postgres | file='' @ f) w"
  from load_to_postgres_run [OF assms] obtain wb
    where body: "load_body cast f (open_cursor c ?w1) = (r, wb)"
      and w': "w' = (if r = Inr ()
          then logger INFO ''Data successfully loaded into Postgres'' (close (commit wb))
          else close (logger ERROR ''Postgres transaction failed and was rolled back''
                        (rollback wb)))"
    by blast
  note frame = load_body_frame [OF body]
  from load_body_outcome [OF body]
  have out: "(case csv_files w f of
            None \<Rightarrow> r = Inl FileNotFoundError
          | Some rows \<Rightarrow>
              (case apply_rows cast rows (case store w of None \<Rightarrow> [] | Some t \<Rightarrow> t) of
                 Inl e \<Rightarrow> r = Inl e
               | Inr t' \<Rightarrow> r = Inr () \<and> working wb = Some t'))"
    by (simp cong: option.case_cong)
  show "csv_files w' = csv_files w"
    using w' frame by simp
  show "(case csv_files w f of
            None \<Rightarrow> r = Inl FileNotFoundError \<and> store w' = store w
          | Some rows \<Rightarrow>
              (case apply_rows cast rows (case store w of None \<Rightarrow> [] | Some t \<Rightarrow> t) of
                 Inl e \<Rightarrow> r = Inl e \<and> store w' = store w
               | Inr t' \<Rightarrow> r = Inr () \<and> store w' = Some t'))"
    using out w' frame by (auto split: option.splits sum.splits)
qed

subsection \<open>The claims about the Loader\<close>

text \<open>
  Claim C4. Every call of the Loader is one transaction. The calls it makes on the
  connection are: open connection and cursor, then statements only, then exactly one
  of commit and rollback, then the two closes, whether it returns or raises. When
  it raises, the error is the one raised inside the block, unchanged, the
  transaction is rolled back and the committed table is what it was. When it
  returns, the statements were the table creation and one insert for every row of
  the file, in order, the commit came after them, and the committed table holds
  their effect.
\<close>

theorem load_is_one_transaction:
  assumes "load_to_postgres cast csv_file conn_id w = (r, w')"
  shows "\<exists>stmts.
     calls w' = calls w @ [GetConn, Cursor] @ map Execute stmts @
                [if r = Inr () then Commit else Rollback, CursorClose, ConnectionClose] \<and>
     fst (load_body cast csv_file
            (open_cursor conn_id
               (logger INFO (''Loading transformed data into Postgres | file='' @ csv_file) w))) = r \<and>
     (r \<noteq> Inr () \<longrightarrow> store w' = store w) \<and>
     (r = Inr () \<longrightarrow>
        (\<exists>rows ps t'. csv_files w csv_file = Some rows \<and> map row_params rows = map Inr ps \<and>
           stmts = CreateTable # map InsertRow ps \<and>
           apply_rows cast rows (case store w of None \<Rightarrow> [] | Some t \<Rightarrow> t) = Inr t' \<and>
           store w' = Some t'))"
proof -
  let ?w1 = "logger INFO (''Loading transformed data into Postgres | file='' @ csv_file) w"
  from load_to_postgres_run [OF assms] obtain wb
    where body: "load_body cast csv_file (open_cursor conn_id ?w1) = (r, wb)"
      and w': "w' = (if r = Inr ()
          then logger INFO ''Data successfully loaded into Postgres'' (close (commit wb))
          else close (logger ERROR ''Postgres transaction failed and was rolled back''
                        (rollback wb)))"
    by blast
  from load_body_calls [OF body] obtain stmts
    where cb: "calls wb = calls w @ [GetConn, Cursor] @ map Execute stmts"
      and ok: "r = Inr () \<longrightarrow>
              (\<exists>rows ps. csv_files w csv_file = Some rows \<and> map row_params rows = map Inr ps \<and>
                          stmts = CreateTable # map InsertRow ps)"
    by auto
  from cb w' have trace: "calls w' = calls w @ [GetConn, Cursor] @ map Execute stmts @
                [if r = Inr () then Commit else Rollback, CursorClose, ConnectionClose]"
    by simp
  from body have res: "fst (load_body cast csv_file (open_cursor conn_id ?w1)) = r"
    by simp
  note st = load_to_postgres_store(2) [OF assms]
  from st have bad: "r \<noteq> Inr () \<longrightarrow> store w' = store w"
    by (auto split: option.splits sum.splits)
  have good: "\<exists>rows ps t'. csv_files w csv_file = Some rows \<and> map row_params rows = map Inr ps \<and>
           stmts = CreateTable # map InsertRow ps \<and>
           apply_rows cast rows (case store w of None \<Rightarrow> [] | Some t \<Rightarrow> t) = Inr t' \<and>
           store w' = Some t'" if r: "r = Inr ()"
  proof -
    from ok r obtain rows ps where f: "csv_files w csv_file = Some rows"
      and ps: "map row_params rows = map Inr ps" and s: "stmts = CreateTable # map InsertRow ps"
      by blast
    from st f r obtain t' where
      "apply_rows cast rows (case store w of None \<Rightarrow> [] | Some t \<Rightarrow> t) = Inr t'"
      and "store w' = Some t'"
      by (auto split: sum.splits)
    with f ps s show ?thesis by blast
  qed
  from trace res bad good show ?thesis by blast
qed

theorem load_is_one_transaction_witness:
  "fst (load_to_postgres int4_in ''/staging/pageviews.csv'' ''postgres_connection'' example_world)
     = Inr () \<and>
   store (snd (load_to_postgres int4_in ''/staging/pageviews.csv'' ''postgres_connection''
                 example_world)) \<noteq> None \<and>
   calls (snd (load_to_postgres int4_in ''/staging/pageviews.csv'' ''postgres_connection''
                 example_world)) =
     [GetConn, Cursor, Execute CreateTable,
      Execute (InsertRow (''1'', ''Apple_Inc.'', ''451'', ''2025'', ''12'', ''10'', ''16'')),
      Execute (InsertRow (''2'', ''Google'', ''1000'', ''2025'', ''12'', ''10'', ''16'')),
      Commit, CursorClose, ConnectionClose] \<and>
   fst (load_to_postgres int4_in ''/staging/broken.csv'' ''postgres_connection'' example_world)
     = Inl (DatabaseError ''invalid input for type integer'') \<and>
   store (snd (load_to_postgres int4_in ''/staging/broken.csv'' ''postgres_connection''
                 example_world)) = store example_world \<and>
   calls (snd (load_to_postgres int4_in ''/staging/broken.csv'' ''postgres_connection''
                 example_world)) =
     [GetConn, Cursor, Execute CreateTable,
      Execute (InsertRow (''1'', ''Apple_Inc.'', ''451'', ''2025'', ''12'', ''10'', ''16'')),
      Execute (InsertRow (''2'', ''Google'', ''many'', ''2025'', ''12'', ''10'', ''16'')),
      Rollback, CursorClose, ConnectionClose]"
proof -
  let ?good = "load_to_postgres int4_in ''/staging/pageviews.csv'' ''postgres_connection''
                 example_world"
  let ?bad = "load_to_postgres int4_in ''/staging/broken.csv'' ''postgres_connection''
                 example_world"
  have g: "fst ?good = Inr ()" by code_simp
  have gc: "calls (snd ?good) =
     [GetConn, Cursor, Execute CreateTable,
      Execute (InsertRow (''1'', ''Apple_Inc.'', ''451'', ''2025'', ''12'', ''10'', ''16'')),
      Execute (InsertRow (''2'', ''Google'', ''1000'', ''2025'', ''12'', ''10'', ''16'')),
      Commit, CursorClose, ConnectionClose]"
    by code_simp
  have b: "fst ?bad = Inl (DatabaseError ''invalid input for type integer'')" by code_simp
  have bc: "calls (snd ?bad) =
     [GetConn, Cursor, Execute CreateTable,
      Execute (InsertRow (''1'', ''Apple_Inc.'', ''451'', ''2025'', ''12'', ''10'', ''16'')),
      Execute (InsertRow (''2'', ''Google'', ''many'', ''2025'', ''12'', ''10'', ''16'')),
      Rollback, CursorClose, ConnectionClose]"
    by code_simp
  have "?good = (fst ?good, snd ?good)" by simp
  from load_is_one_transaction [OF this] g
  have 1: "store (snd ?good) \<noteq> None" by auto
  have "?bad = (fst ?bad, snd ?bad)" by simp
  from load_is_one_transaction [OF this] b
  have 2: "store (snd ?bad) = store example_world" by auto
  from g gc b bc 1 2 show ?thesis by blast
qed

text \<open>
  Claim C5. Loading a file a second time leaves the committed table as the first
  load left it (whatever the table was before, so in particular for a store that was
  empty), and raises nothing when the first load raised nothing: an insert whose
  \<open>page_title_id\<close> is already in the table returns the table unchanged, without
  error.
\<close>

theorem reload_is_idempotent:
  assumes "load_to_postgres cast csv_file conn_id w = (r1, w1)"
    and "load_to_postgres cast csv_file conn_id w1 = (r2, w2)"
  shows "store w2 = store w1 \<and> (r1 = Inr () \<longrightarrow> r2 = Inr ()) \<and>
         (\<forall>p r t. cast_row cast p = Some r \<longrightarrow> page_title_id r \<in> set (map page_title_id t) \<longrightarrow>
                  sql_insert cast p (Some t) = Inr t)"
proof -
  note first = load_to_postgres_store [OF assms(1)]
  note second = load_to_postgres_store [OF assms(2)]
  have main: "store w2 = store w1 \<and> (r1 = Inr () \<longrightarrow> r2 = Inr ())"
  proof (cases "csv_files w csv_file")
    case None
    with first have "r1 \<noteq> Inr ()" and "csv_files w1 csv_file = None" by auto
    with second show ?thesis by auto
  next
    case (Some rows)
    with first(1) have f1: "csv_files w1 csv_file = Some rows" by simp
    show ?thesis
    proof (cases "apply_rows cast rows (case store w of None \<Rightarrow> [] | Some t \<Rightarrow> t)")
      case (Inl e)
      with Some first(2) have "r1 = Inl e" and "store w1 = store w" by auto
      with Inl f1 second(2) show ?thesis by auto
    next
      case (Inr t')
      with Some first(2) have r1: "r1 = Inr ()" and s1: "store w1 = Some t'" by auto
      from apply_rows_again [OF Inr] have "apply_rows cast rows t' = Inr t'" by simp
      with f1 s1 second(2) show ?thesis by auto
    qed
  qed
  with sql_insert_conflict show ?thesis by blast
qed

theorem reload_is_idempotent_witness:
  "fst (load_to_postgres int4_in ''/staging/pageviews.csv'' ''postgres_connection'' example_world)
     = Inr () \<and>
   fst (load_to_postgres int4_in ''/staging/pageviews.csv'' ''postgres_connection''
          (snd (load_to_postgres int4_in ''/staging/pageviews.csv'' ''postgres_connection''
                  example_world))) = Inr () \<and>
   store (snd (load_to_postgres int4_in ''/staging/pageviews.csv'' ''postgres_connection''
          (snd (load_to_postgres int4_in ''/staging/pageviews.csv'' ''postgres_connection''
                  example_world)))) =
     Some [\<lparr>page_title_id = 1, page_title = ''Apple_Inc.'', pageviews = 451,
             year = 2025, month = 12, day = 10, hour = 16\<rparr>,
           \<lparr>page_title_id = 2, page_title = ''Google'', pageviews = 1000,
             year = 2025, month = 12, day = 10, hour = 16\<rparr>]"
proof -
  let ?once = "load_to_postgres int4_in ''/staging/pageviews.csv'' ''postgres_connection''
                 example_world"
  let ?twice = "load_to_postgres int4_in ''/staging/pageviews.csv'' ''postgres_connection''
                 (snd ?once)"
  have g: "fst ?once = Inr ()" by code_simp
  have s: "store (snd ?once) =
     Some [\<lparr>page_title_id = 1, page_title = ''Apple_Inc.'', pageviews = 451,
             year = 2025, month = 12, day = 10, hour = 16\<rparr>,
           \<lparr>page_title_id = 2, page_title = ''Google'', pageviews = 1000,
             year = 2025, month = 12, day = 10, hour = 16\<rparr>]"
    by code_simp
  have 1: "?once = (fst ?once, snd ?once)" and 2: "?twice = (fst ?twice, snd ?twice)"
    by simp_all
  from reload_is_idempotent [OF 1 2] g s show ?thesis by simp
qed

subsection \<open>The query\<close>

lemma order_desc_limit_1_None: "order_desc_limit_1 gs = None \<longleftrightarrow> gs = []"
  by (induction gs) (auto split: option.splits)

lemma order_desc_limit_1_max:
  "order_desc_limit_1 gs = Some b \<Longrightarrow> b \<in> set gs \<and> (\<forall>g\<in>set gs. snd g \<le> snd b)"
proof (induction gs arbitrary: b)
  case Nil
  then show ?case by simp
next
  case (Cons g gs)
  show ?case
  proof (cases "order_desc_limit_1 gs")
    case None
    with Cons.prems have "b = g" and "gs = []"
      by (simp_all add: order_desc_limit_1_None)
    then show ?thesis by simp
  next
    case (Some c)
    from Cons.IH [OF Some] have c: "c \<in> set gs" and le: "\<forall>x\<in>set gs. snd x \<le> snd c"
      by simp_all
    show ?thesis
    proof (cases "snd g < snd c")
      case True
      with Some Cons.prems have "b = c" by simp
      with c le True show ?thesis by auto
    next
      case False
      with Some Cons.prems have "b = g" by simp
      with le False show ?thesis by fastforce
    qed
  qed
qed

lemma set_group_by: "set (group_by t) = (\<lambda>k. (k, group_total t k)) ` set (map group_key t)"
  by (simp add: group_by_def)

lemma group_by_Nil: "group_by t = [] \<longleftrightarrow> t = []"
  by (simp add: group_by_def)

lemma most_viewed_row:
  assumes "order_desc_limit_1 (group_by t) = Some (k, n)"
  shows "k \<in> set (map group_key t)" and "n = group_total t k"
    and "\<forall>k'\<in>set (map group_key t). group_total t k' \<le> n"
proof -
  from order_desc_limit_1_max [OF assms]
  have mem: "(k, n) \<in> set (group_by t)" and le: "\<forall>g\<in>set (group_by t). snd g \<le> n"
    by simp_all
  from mem show "k \<in> set (map group_key t)" and "n = group_total t k"
    by (auto simp: set_group_by)
  show "\<forall>k'\<in>set (map group_key t). group_total t k' \<le> n"
  proof
    fix k'
    assume "k' \<in> set (map group_key t)"
    then have "(k', group_total t k') \<in> set (group_by t)"
      by (auto simp: set_group_by)
    with le show "group_total t k' \<le> n" by fastforce
  qed
qed

subsection \<open>The analysis\<close>

lemma query_in_cursor:
  assumes "store w = Some t"
  shows "\<exists>wb. postgres_cursor c execute_query w =
           (Inr (order_desc_limit_1 (group_by t)), close (commit wb)) \<and>
         working wb = Some t \<and> pipeline_log wb = pipeline_log w \<and>
         analysis_log wb = analysis_log w \<and> analysis_log_dir wb = analysis_log_dir w \<and>
         calls wb = calls w @ [GetConn, Cursor, Execute SelectMostViewed, Fetchone]"
proof -
  define wb where "wb = call Fetchone (call (Execute SelectMostViewed) (open_cursor c w))"
  from assms have "execute_query (open_cursor c w) = (Inr (order_desc_limit_1 (group_by t)), wb)"
    by (simp add: execute_query_def Let_def wb_def)
  then have "postgres_cursor c execute_query w =
           (Inr (order_desc_limit_1 (group_by t)), close (commit wb))"
    by (simp add: postgres_cursor_def)
  moreover from assms have "working wb = Some t" "pipeline_log wb = pipeline_log w"
    "analysis_log wb = analysis_log w" "analysis_log_dir wb = analysis_log_dir w"
    "calls wb = calls w @ [GetConn, Cursor, Execute SelectMostViewed, Fetchone]"
    by (simp_all add: wb_def)
  ultimately show ?thesis by blast
qed

subsection \<open>The numerals the Analyzer prints\<close>

lemma digits_value_snoc: "digits_value (ds @ [c]) = 10 * digits_value ds + digit_val c"
  by (simp add: digits_value_def)

lemma digit_char:
  assumes "k < 10"
  shows "is_digit (char_of (48 + k))" and "digit_val (char_of (48 + k)) = int k"
  using assms by (simp_all add: is_digit_def digit_val_def)

lemma str_nat_digits: "str_nat n \<noteq> [] \<and> list_all is_digit (str_nat n) \<and> digits_value (str_nat n) = int n"
proof (induction n rule: str_nat.induct)
  case (1 n)
  show ?case
  proof (cases "n < 10")
    case True
    have "str_nat n = [char_of (48 + n)]"
      using True by (subst str_nat.simps) simp
    with True digit_char [of n] show ?thesis
      by (simp add: digits_value_def del: str_nat.simps)
  next
    case False
    have eq: "str_nat n = str_nat (n div 10) @ [char_of (48 + n mod 10)]"
      using False by (subst str_nat.simps) simp
    have "n mod 10 < 10" by simp
    note dc = digit_char [OF this]
    have decomp: "int n = 10 * int (n div 10) + int (n mod 10)"
      by (simp add: zdiv_int zmod_int)
    from dc "1.IH" [OF False] show ?thesis
      by (simp add: eq digits_value_snoc decomp del: str_nat.simps)
  qed
qed

lemma str_nat_hd: "0 < n \<Longrightarrow> hd (str_nat n) \<noteq> CHR ''0''"
proof (induction n rule: str_nat.induct)
  case (1 n)
  show ?case
  proof (cases "n < 10")
    case True
    have "str_nat n = [char_of (48 + n)]"
      using True by (subst str_nat.simps) simp
    moreover from True "1.prems" have "digit_val (char_of (48 + n)) \<noteq> digit_val (CHR ''0'')"
      using digit_char(2) [of n] by (simp add: digit_val_def)
    ultimately show ?thesis by (auto simp del: str_nat.simps)
  next
    case False
    have eq: "str_nat n = str_nat (n div 10) @ [char_of (48 + n mod 10)]"
      using False by (subst str_nat.simps) simp
    from False have "0 < n div 10" by simp
    from "1.IH" [OF False this] str_nat_digits [of "n div 10"] show ?thesis
      by (simp add: eq del: str_nat.simps)
  qed
qed

lemma str_nat_single: "length (str_nat n) = 1 \<longleftrightarrow> n < 10"
proof (cases "n < 10")
  case True
  have "str_nat n = [char_of (48 + n)]"
    using True by (subst str_nat.simps) simp
  with True show ?thesis by (simp del: str_nat.simps)
next
  case False
  have eq: "str_nat n = str_nat (n div 10) @ [char_of (48 + n mod 10)]"
    using False by (subst str_nat.simps) simp
  from str_nat_digits [of "n div 10"] have "str_nat (n div 10) \<noteq> []" by blast
  then have "1 < length (str_nat n)"
    by (cases "str_nat (n div 10)") (simp_all add: eq del: str_nat.simps)
  with False show ?thesis by simp
qed

lemma str_nat_decimal: "decimal_numeral (int n) (str_nat n)"
proof -
  have "hd (str_nat n) \<noteq> CHR ''0''" if "1 < length (str_nat n)"
  proof -
    from that str_nat_single [of n] have "0 < n" by (cases "n = 0") auto
    then show ?thesis by (rule str_nat_hd)
  qed
  with str_nat_digits [of n] show ?thesis
    by (simp add: decimal_numeral_def del: str_nat.simps)
qed

lemma str_int_decimal: "decimal_numeral i (str_int i)"
proof (cases "i < 0")
  case False
  with str_nat_decimal [of "nat i"] show ?thesis
    by (simp add: str_int_def del: str_nat.simps)
next
  case True
  then have pos: "0 < nat (- i)" by simp
  from str_nat_decimal [of "nat (- i)"] True
  have "decimal_numeral (- i) (str_nat (nat (- i)))" by (simp del: str_nat.simps)
  with True show ?thesis
    by (simp add: str_int_def decimal_numeral_def del: str_nat.simps)
qed

lemma format_02d_two_digit: "two_digit_numeral i (format_02d i)"
  using str_int_decimal [of i]
  by (simp add: two_digit_numeral_def format_02d_def)

lemma str_nat_step: "10 \<le> n \<Longrightarrow> str_nat n = str_nat (n div 10) @ [char_of (48 + n mod 10)]"
  by (subst str_nat.simps) simp

lemma str_int_four_digits:
  assumes "1000 \<le> i" and "i \<le> 9999"
  shows "four_digit_numeral i (str_int i)"
proof -
  define n where "n = nat i"
  from assms have n: "1000 \<le> n" "n \<le> 9999" and i: "i = int n" "\<not> i < 0"
    by (simp_all add: n_def)
  from n have a: "10 \<le> n" and b: "10 \<le> n div 10" and c: "10 \<le> n div 10 div 10"
    and d: "n div 10 div 10 div 10 < 10"
    by simp_all
  from d str_nat_single [of "n div 10 div 10 div 10"]
  have "length (str_nat (n div 10 div 10 div 10)) = 1"
    by (simp del: str_nat.simps)
  then have "length (str_nat n) = 4"
    by (simp add: str_nat_step [OF a] str_nat_step [OF b] str_nat_step [OF c]
        del: str_nat.simps)
  with str_nat_digits [of n] i show ?thesis
    by (simp add: four_digit_numeral_def str_int_def del: str_nat.simps)
qed

subsection \<open>The claims about the Analyzer\<close>

text \<open>
  Claim C6, as stated, fails in the year of the report line: the claim has it as
  \<^verbatim>\<open>yyyy\<close>, the code prints the year as it is. A row transformed under the timestamp
  \<^verbatim>\<open>0987010203\<close> carries the year 987, and the line written for it has the time window
  \<^verbatim>\<open>987-01-02 at 03:00\<close>.
\<close>

theorem year_format_counterexample:
  "snd (transform_pageviews [''en Google 7 0''] ''0987010203'') =
     Some [\<lparr>page_title_id = 1, page_title = ''Google'', pageviews = 7,
             year = 987, month = 1, day = 2, hour = 3\<rparr>] \<and>
   store early_year_world =
     Some [\<lparr>page_title_id = 1, page_title = ''Google'', pageviews = 7,
             year = 987, month = 1, day = 2, hour = 3\<rparr>] \<and>
   analysis_log (snd (get_most_viewed_page ''postgres_connection'' early_year_world)) =
     Some (''Most viewed Wikipedia page: '' @ [CHR 0x27] @ ''Google'' @ [CHR 0x27] @
           '' | Total views: 7 | Time window: '' @ ''987'' @ ''-01-02 at 03:00'' @ [CHR 0x0A]) \<and>
   \<not> four_digit_numeral 987 ''987''"
  by code_simp

text \<open>
  Claim C6, amended. When the table has rows, the Analyzer returns a group
  \<open>(page_title, year, month, day, hour)\<close> of the table whose sum of page views over
  all rows of the group is the largest among the groups of the table, with that sum.
  It appends exactly one line
  \<^verbatim>\<open>Most viewed Wikipedia page: 'title' | Total views: n | Time window: y-mm-dd at hh:00\<close>
  to the analysis log, after what the log held before, and the directory of the log
  exists afterwards. In the line \<open>n\<close> and \<open>y\<close> are decimal numerals, \<open>y\<close> of four digits
  for the years 1000 to 9999, and \<open>mm\<close>, \<open>dd\<close>, \<open>hh\<close> are padded with a zero to two
  characters.
\<close>

theorem most_viewed_page:
  assumes "store w = Some t" and "t \<noteq> []"
    and "get_most_viewed_page conn_id w = (r, w')"
  shows "\<exists>title y m d h n ns ys ms ds hs.
     (\<exists>row\<in>set t. (page_title row, year row, month row, day row, hour row) = (title, y, m, d, h)) \<and>
     n = sum_list (map pageviews
           (filter (\<lambda>row. (page_title row, year row, month row, day row, hour row) =
                          (title, y, m, d, h)) t)) \<and>
     (\<forall>other\<in>set t.
        sum_list (map pageviews
           (filter (\<lambda>row. (page_title row, year row, month row, day row, hour row) =
                          (page_title other, year other, month other, day other, hour other)) t))
        \<le> n) \<and>
     r = Inr [(''page_title'', PyStr title), (''year'', PyInt y), (''month'', PyInt m),
              (''day'', PyInt d), (''hour'', PyInt h), (''total_pageviews'', PyInt n)] \<and>
     decimal_numeral n ns \<and> decimal_numeral y ys \<and>
     (1000 \<le> y \<and> y \<le> 9999 \<longrightarrow> four_digit_numeral y ys) \<and>
     two_digit_numeral m ms \<and> two_digit_numeral d ds \<and> two_digit_numeral h hs \<and>
     analysis_log w' =
       Some ((case analysis_log w of None \<Rightarrow> [] | Some old \<Rightarrow> old) @
             ''Most viewed Wikipedia page: '' @ [CHR 0x27] @ title @ [CHR 0x27] @
             '' | Total views: '' @ ns @
             '' | Time window: '' @ ys @ ''-'' @ ms @ ''-'' @ ds @
             '' at '' @ hs @ '':00'' @ [CHR 0x0A]) \<and>
     analysis_log_dir w' \<and> store w' = store w"
proof -
  let ?w1 = "logger INFO ''Running analysis: most viewed Wikipedia page with time context'' w"
  let ?key = "\<lambda>row. (page_title row, year row, month row, day row, hour row)"
  from assms(1) have "store ?w1 = Some t" by simp
  from query_in_cursor [OF this, of conn_id] obtain wb
    where run: "postgres_cursor conn_id execute_query ?w1 =
           (Inr (order_desc_limit_1 (group_by t)), close (commit wb))"
      and wb: "working wb = Some t" "analysis_log wb = analysis_log w"
    by auto
  from assms(2) obtain row where row: "order_desc_limit_1 (group_by t) = Some row"
    by (cases "order_desc_limit_1 (group_by t)")
       (auto simp: order_desc_limit_1_None group_by_Nil)
  obtain title y m d h n where row_eq: "row = ((title, y, m, d, h), n)"
    by (cases row) auto
  note facts = most_viewed_row [OF row [unfolded row_eq]]
  from facts(1) have key: "\<exists>x\<in>set t. ?key x = (title, y, m, d, h)"
    by (auto simp: group_key_def)
  from facts(2) have total: "n = sum_list (map pageviews
           (filter (\<lambda>x. ?key x = (title, y, m, d, h)) t))"
    by (simp add: group_total_def group_key_def)
  have largest: "\<forall>other\<in>set t.
        sum_list (map pageviews (filter (\<lambda>x. ?key x = ?key other) t)) \<le> n"
  proof
    fix other
    assume "other \<in> set t"
    then have "group_key other \<in> set (map group_key t)" by simp
    with facts(3) have "group_total t (group_key other) \<le> n" by blast
    then show "sum_list (map pageviews (filter (\<lambda>x. ?key x = ?key other) t)) \<le> n"
      by (simp add: group_total_def group_key_def)
  qed
  from assms(3) run row row_eq wb assms(1)
  have res: "r = Inr [(''page_title'', PyStr title), (''year'', PyInt y), (''month'', PyInt m),
              (''day'', PyInt d), (''hour'', PyInt h), (''total_pageviews'', PyInt n)]"
    and log: "analysis_log w' =
       Some ((case analysis_log w of None \<Rightarrow> [] | Some old \<Rightarrow> old) @
             ''Most viewed Wikipedia page: '' @ [CHR 0x27] @ title @ [CHR 0x27] @
             '' | Total views: '' @ str_int n @
             '' | Time window: '' @ str_int y @ ''-'' @ format_02d m @ ''-'' @ format_02d d @
             '' at '' @ format_02d h @ '':00'' @ [CHR 0x0A])"
    and dir: "analysis_log_dir w'" and st: "store w' = store w"
    by (auto simp: get_most_viewed_page_def Let_def result_dict_def report_message_def
        append_line_def)
  have four: "1000 \<le> y \<and> y \<le> 9999 \<longrightarrow> four_digit_numeral y (str_int y)"
    using str_int_four_digits [of y] by blast
  from key total largest res log dir st four
    str_int_decimal [of n] str_int_decimal [of y]
    format_02d_two_digit [of m] format_02d_two_digit [of d] format_02d_two_digit [of h]
  show ?thesis by blast
qed

theorem most_viewed_page_witness:
  "store summed_world =
     Some [\<lparr>page_title_id = 1, page_title = ''Google'', pageviews = 600,
             year = 2025, month = 1, day = 2, hour = 3\<rparr>,
           \<lparr>page_title_id = 2, page_title = ''Apple_Inc.'', pageviews = 1000,
             year = 2025, month = 1, day = 2, hour = 3\<rparr>,
           \<lparr>page_title_id = 3, page_title = ''Google'', pageviews = 500,
             year = 2025, month = 1, day = 2, hour = 3\<rparr>] \<and>
   fst (get_most_viewed_page ''postgres_connection'' summed_world) =
     Inr [(''page_title'', PyStr ''Google''), (''year'', PyInt 2025), (''month'', PyInt 1),
          (''day'', PyInt 2), (''hour'', PyInt 3), (''total_pageviews'', PyInt 1100)] \<and>
   analysis_log (snd (get_most_viewed_page ''postgres_connection'' summed_world)) =
     Some (''an earlier line'' @ [CHR 0x0A] @
           ''Most viewed Wikipedia page: '' @ [CHR 0x27] @ ''Google'' @ [CHR 0x27] @
           '' | Total views: 1100 | Time window: 2025-01-02 at 03:00'' @ [CHR 0x0A]) \<and>
   decimal_numeral 1100 ''1100'' \<and> four_digit_numeral 2025 ''2025'' \<and>
   two_digit_numeral 1 ''01'' \<and> two_digit_numeral 2 ''02'' \<and> two_digit_numeral 3 ''03'' \<and>
   analysis_log_dir (snd (get_most_viewed_page ''postgres_connection'' summed_world)) \<and>
   store (snd (get_most_viewed_page ''postgres_connection'' summed_world)) = store summed_world"
proof -
  let ?t = "[\<lparr>page_title_id = 1, page_title = ''Google'', pageviews = 600,
             year = 2025, month = 1, day = 2, hour = 3\<rparr>,
           \<lparr>page_title_id = 2, page_title = ''Apple_Inc.'', pageviews = 1000,
             year = 2025, month = 1, day = 2, hour = 3\<rparr>,
           \<lparr>page_title_id = 3, page_title = ''Google'', pageviews = 500,
             year = 2025, month = 1, day = 2, hour = 3\<rparr>]"
  let ?a = "get_most_viewed_page ''postgres_connection'' summed_world"
  have s: "store summed_world = Some ?t" by (simp add: summed_world_def)
  have ne: "?t \<noteq> []" by simp
  have r: "fst ?a =
     Inr [(''page_title'', PyStr ''Google''), (''year'', PyInt 2025), (''month'', PyInt 1),
          (''day'', PyInt 2), (''hour'', PyInt 3), (''total_pageviews'', PyInt 1100)]"
    by code_simp
  have l: "analysis_log (snd ?a) =
     Some (''an earlier line'' @ [CHR 0x0A] @
           ''Most viewed Wikipedia page: '' @ [CHR 0x27] @ ''Google'' @ [CHR 0x27] @
           '' | Total views: 1100 | Time window: 2025-01-02 at 03:00'' @ [CHR 0x0A])"
    by code_simp
  have n: "decimal_numeral 1100 ''1100''" "four_digit_numeral 2025 ''2025''"
    "two_digit_numeral 1 ''01''" "two_digit_numeral 2 ''02''" "two_digit_numeral 3 ''03''"
    by code_simp+
  have "?a = (fst ?a, snd ?a)" by simp
  from most_viewed_page [OF s ne this]
  have "analysis_log_dir (snd ?a)" and "store (snd ?a) = store summed_world"
    by blast+
  with s r l n show ?thesis by blast
qed

text \<open>
  Claim C7. When the table is empty, the Analyzer returns the empty dictionary and
  raises nothing, logs the warning, and leaves the analysis log and its directory as
  they were.
\<close>

theorem empty_store_analysis:
  assumes "store w = Some []"
  shows "\<exists>w'. get_most_viewed_page conn_id w = (Inr [], w') \<and>
           analysis_log w' = analysis_log w \<and>
           analysis_log_dir w' = analysis_log_dir w \<and>
           pipeline_log w' = pipeline_log w @
             [(INFO, ''Running analysis: most viewed Wikipedia page with time context''),
              (WARNING, ''No data found in wikipedia_pageviews table'')] \<and>
           store w' = Some []"
proof -
  let ?w1 = "logger INFO ''Running analysis: most viewed Wikipedia page with time context'' w"
  from assms have "store ?w1 = Some []" by simp
  from query_in_cursor [OF this, of conn_id] obtain wb
    where run: "postgres_cursor conn_id execute_query ?w1 =
           (Inr (order_desc_limit_1 (group_by [])), close (commit wb))"
      and wb: "working wb = Some []" "pipeline_log wb = pipeline_log ?w1"
        "analysis_log wb = analysis_log ?w1" "analysis_log_dir wb = analysis_log_dir ?w1"
    by auto
  have none: "order_desc_limit_1 (group_by []) = None"
    by (simp add: group_by_def)
  let ?w' = "logger WARNING ''No data found in wikipedia_pageviews table'' (close (commit wb))"
  from run none have "get_most_viewed_page conn_id w = (Inr [], ?w')"
    by (simp add: get_most_viewed_page_def Let_def)
  moreover from wb have "analysis_log ?w' = analysis_log w"
    "analysis_log_dir ?w' = analysis_log_dir w"
    "pipeline_log ?w' = pipeline_log w @
             [(INFO, ''Running analysis: most viewed Wikipedia page with time context''),
              (WARNING, ''No data found in wikipedia_pageviews table'')]"
    "store ?w' = Some []"
    by simp_all
  ultimately show ?thesis by blast
qed

theorem empty_store_analysis_witness:
  "store (example_world\<lparr>store := Some []\<rparr>) = Some [] \<and>
   fst (get_most_viewed_page ''postgres_connection'' (example_world\<lparr>store := Some []\<rparr>)) = Inr [] \<and>
   analysis_log (snd (get_most_viewed_page ''postgres_connection''
                   (example_world\<lparr>store := Some []\<rparr>))) = None \<and>
   pipeline_log (snd (get_most_viewed_page ''postgres_connection''
                   (example_world\<lparr>store := Some []\<rparr>))) =
     [(INFO, ''Running analysis: most viewed Wikipedia page with time context''),
      (WARNING, ''No data found in wikipedia_pageviews table'')]"
proof -
  let ?w = "example_world\<lparr>store := Some []\<rparr>"
  have s: "store ?w = Some []" by simp
  have a: "analysis_log ?w = None" and p: "pipeline_log ?w = []"
    by (simp_all add: example_world_def)
  from empty_store_analysis [OF s, of "''postgres_connection''"] a p s show ?thesis
    by auto
qed

text \<open>
  For completeness: in a store where the table was never created the query itself
  fails, and the Analyzer re-raises. The pipeline runs the Loader, which creates the
  table, before the Analyzer.
\<close>

lemma analysis_without_table:
  assumes "store w = None"
  shows "fst (get_most_viewed_page conn_id w) =
           Inl (DatabaseError ''relation wikipedia_pageviews does not exist'')"
  using assms
  by (simp add: get_most_viewed_page_def postgres_cursor_def execute_query_def Let_def)

end
